theory Spec2Isabelle
  imports Main "HOL-Library.Sublist"
begin

section \<open>The automod pipeline of rcon/automods/automod.py\<close>

text \<open>
  The module drives four pluggable moderators against a remote game server. Everything
  it does is an effect on a collaborator: the command channel (\<open>rcon\<close>), the Discord
  audit sink, the key store (\<open>redis\<close>), the configuration store, the moderators' own
  methods, \<open>threading.Timer\<close> and the logger. The embedding keeps an explicit world:
  the sequence of effects performed so far (\<open>trace\<close>), the key store, the number of
  configuration reads, the timers created and the module-level dictionary
  \<open>pendingTimers\<close>. What a collaborator answers is not decided by this module, so it is
  an oracle (\<open>env\<close>) that may depend on everything that happened before the call.
\<close>

subsection \<open>Data\<close>

datatype exn = CommandFailedError | HLLServerError | OtherException

datatype ActionMethod = MESSAGE | PUNISH | KICK

record PunishDetails =
  author :: string
  message :: string
  dry_run :: bool
  discord_audit_url :: "string option"

record PunishPlayer =
  player_id :: string
  name :: string
  details :: PunishDetails

record PunitionsToApply =
  warning :: "PunishPlayer list"
  punish :: "PunishPlayer list"
  kick :: "PunishPlayer list"

text \<open>
  A squad is a dictionary with a \<open>players\<close> list; the other keys are opaque to this
  module. A team entry of the team view has a \<open>commander\<close> (a player or \<open>None\<close>) and
  the \<open>squads\<close> dictionary, read in insertion order by \<open>items()\<close>. The team view maps a
  team name to its entry; \<open>team_view.get(team)\<close> is \<open>None\<close> for an absent team.
\<close>

record squad =
  players :: "string list"
  extras :: "(string \<times> string) list"

record team_entry =
  commander :: "string option"
  squads :: "(string \<times> squad) list"

type_synonym team_view = "string \<Rightarrow> team_entry option"

datatype mod_kind =
  NoLeaderAutomod | SeedingRulesAutomod | LevelThresholdsAutomod | NoSoloTankAutomod

text \<open>
  A moderator instance is identified by its class and by the call of
  \<open>enabled_moderators\<close> that constructed it.
\<close>

type_synonym mod_id = "mod_kind \<times> nat"

datatype log_level = DEBUG | WARNING | ERROR

datatype event =
    RconGetTeamView
  | RconGetGamestate
  | RconGetDetailedPlayerInfo string
  | RconMessagePlayer "string option" string string string "bool option"
  | RconPunish string string string
  | RconKick string string string string
  | SendToDiscordAudit string PunishPlayer string string "string list" bool
  | RedisExists string
  | RedisSetex string nat string
  | ConfigLoaded nat
  | PunitionsToApplyCall mod_id string string squad
  | OnKillCall mod_id string
  | OnConnectedCall mod_id string string "string option"
  | PlayerPunishFailedCall mod_id PunishPlayer
  | TimerStarted nat
  | Log log_level string

text \<open>
  \<open>RconMessagePlayer name player_id message by save_message\<close>: the executor passes the
  name and leaves \<open>save_message\<close> to its default, the deferred notifier passes no name
  and \<open>save_message=False\<close>. \<open>SendToDiscordAudit prefix aplayer command_name by
  webhookurls silent\<close>: the message is the f-string \<open>prefix\<close> followed by the player.
\<close>

record moderator =
  mod_kind :: mod_kind
  mod_gen :: nat
  enabled :: bool
  punitions_to_apply ::
    "event list \<Rightarrow> team_view \<Rightarrow> string \<Rightarrow> string \<Rightarrow> squad \<Rightarrow> string \<Rightarrow> exn + PunitionsToApply"
  on_kill_hook :: "(event list \<Rightarrow> string \<Rightarrow> exn + PunitionsToApply) option"
  on_connected_hook ::
    "(event list \<Rightarrow> string \<Rightarrow> string \<Rightarrow> string option \<Rightarrow> exn + PunitionsToApply) option"
  player_punish_failed :: "event list \<Rightarrow> PunishPlayer \<Rightarrow> exn option"

text \<open>
  The oracle. \<open>rcon_reply\<close> answers \<open>message_player\<close>, \<open>punish\<close> and \<open>kick\<close>
  (\<open>None\<close>: the call returns); \<open>construct g k\<close> is the instance of class \<open>k\<close> built from
  the configuration as the \<open>g\<close>-th read finds it; \<open>punitions_bool\<close> is the truth value
  of an aggregate, which \<open>do_punitions\<close> uses only to choose a debug line.
\<close>

record env =
  rcon_reply :: "event list \<Rightarrow> event \<Rightarrow> exn option"
  team_view_reply :: "event list \<Rightarrow> exn + team_view"
  gamestate_reply :: "event list \<Rightarrow> exn + string"
  detailed_player_reply :: "event list \<Rightarrow> string \<Rightarrow> exn + string"
  construct :: "nat \<Rightarrow> mod_kind \<Rightarrow> moderator"
  punitions_bool :: "PunitionsToApply \<Rightarrow> bool"

datatype timer_status = Started | Finished

record timer =
  interval :: nat
  t_name :: string
  t_player_id :: string
  t_punitions :: PunitionsToApply
  status :: timer_status

record world =
  trace :: "event list"
  redis :: "string \<Rightarrow> (nat \<times> string) option"
  generation :: nat
  timers :: "timer list"
  pendingTimers :: "string \<Rightarrow> nat option"

definition emit :: "event \<Rightarrow> world \<Rightarrow> world" where
  "emit e w = w\<lparr>trace := trace w @ [e]\<rparr>"

definition first_run_done_key :: string where
  "first_run_done_key = ''first_run_done''"

subsection \<open>The aggregate\<close>

text \<open>
  Modelled from the spec: \<open>PunitionsToApply.merge\<close> lives in rcon/automods/models.py,
  which is not part of the sources at hand. The specification gives it as the
  concatenation of the same-kind collections, first-seen first.
\<close>

definition merge :: "PunitionsToApply \<Rightarrow> PunitionsToApply \<Rightarrow> PunitionsToApply" where
  "merge s o' = \<lparr>warning = warning s @ warning o',
                 punish = punish s @ punish o',
                 kick = kick s @ kick o'\<rparr>"

definition empty_punitions :: PunitionsToApply where
  "empty_punitions = \<lparr>warning = [], punish = [], kick = []\<rparr>"

subsection \<open>The engine: get_punitions_to_apply\<close>

text \<open>The inner loop \<open>for mod in moderators\<close>; a raising moderator ends the evaluation.\<close>

fun eval_mods ::
  "moderator list \<Rightarrow> team_view \<Rightarrow> string \<Rightarrow> string \<Rightarrow> squad \<Rightarrow> string \<Rightarrow>
   PunitionsToApply \<Rightarrow> world \<Rightarrow> (exn + PunitionsToApply) \<times> world" where
  "eval_mods [] tv squad_name team sq gamestate acc w = (Inr acc, w)"
| "eval_mods (m # ms) tv squad_name team sq gamestate acc w =
     (let w1 = emit (PunitionsToApplyCall (mod_kind m, mod_gen m) squad_name team sq) w in
      case punitions_to_apply m (trace w) tv squad_name team sq gamestate of
        Inl e \<Rightarrow> (Inl e, w1)
      | Inr p \<Rightarrow> eval_mods ms tv squad_name team sq gamestate (merge acc p) w1)"

text \<open>The loop \<open>for squad_name, squad in team_view[team]["squads"].items()\<close>.\<close>

fun eval_squads ::
  "(string \<times> squad) list \<Rightarrow> moderator list \<Rightarrow> team_view \<Rightarrow> string \<Rightarrow> string \<Rightarrow>
   PunitionsToApply \<Rightarrow> world \<Rightarrow> (exn + PunitionsToApply) \<times> world" where
  "eval_squads [] mods tv team gamestate acc w = (Inr acc, w)"
| "eval_squads ((squad_name, sq) # rest) mods tv team gamestate acc w =
     (case eval_mods mods tv squad_name team sq gamestate acc w of
        (Inl e, w1) \<Rightarrow> (Inl e, w1)
      | (Inr acc1, w1) \<Rightarrow> eval_squads rest mods tv team gamestate acc1 w1)"

text \<open>The body of \<open>for team in ["allies", "axis"]\<close>.\<close>

definition eval_team ::
  "moderator list \<Rightarrow> team_view \<Rightarrow> string \<Rightarrow> string \<Rightarrow>
   PunitionsToApply \<Rightarrow> world \<Rightarrow> (exn + PunitionsToApply) \<times> world" where
  "eval_team mods tv team gamestate acc w =
     (case tv team of
        None \<Rightarrow> (Inr acc, w)
      | Some entry \<Rightarrow>
          (case (case commander entry of
                   None \<Rightarrow> (Inr acc, w)
                 | Some c \<Rightarrow>
                     eval_mods mods tv ''Commander'' team
                       \<lparr>players = [c], extras = []\<rparr> gamestate acc w) of
             (Inl e, w1) \<Rightarrow> (Inl e, w1)
           | (Inr acc1, w1) \<Rightarrow> eval_squads (squads entry) mods tv team gamestate acc1 w1))"

fun eval_teams ::
  "string list \<Rightarrow> moderator list \<Rightarrow> team_view \<Rightarrow> string \<Rightarrow>
   PunitionsToApply \<Rightarrow> world \<Rightarrow> (exn + PunitionsToApply) \<times> world" where
  "eval_teams [] mods tv gamestate acc w = (Inr acc, w)"
| "eval_teams (team # rest) mods tv gamestate acc w =
     (case eval_team mods tv team gamestate acc w of
        (Inl e, w1) \<Rightarrow> (Inl e, w1)
      | (Inr acc1, w1) \<Rightarrow> eval_teams rest mods tv gamestate acc1 w1)"

definition get_punitions_to_apply ::
  "env \<Rightarrow> moderator list \<Rightarrow> world \<Rightarrow> (exn + PunitionsToApply) \<times> world" where
  "get_punitions_to_apply env moderators w =
     (let w0 = emit (Log DEBUG ''Getting team info'') w;
          w1 = emit RconGetTeamView w0 in
      case team_view_reply env (trace w0) of
        Inl e \<Rightarrow> (Inl e, w1)
      | Inr tv \<Rightarrow>
          (let w2 = emit RconGetGamestate w1 in
           case gamestate_reply env (trace w1) of
             Inl e \<Rightarrow> (Inl e, w2)
           | Inr gamestate \<Rightarrow>
               eval_teams [''allies'', ''axis''] moderators tv gamestate empty_punitions w2))"

subsection \<open>Configuration: enabled_moderators\<close>

text \<open>
  Every call loads the four configurations again and constructs four new instances, in
  the order of the source's list, and keeps the enabled ones.
\<close>

definition enabled_moderators :: "env \<Rightarrow> world \<Rightarrow> moderator list \<times> world" where
  "enabled_moderators env w =
     (let g = generation w in
      (filter enabled
         (map (\<lambda>k. (construct env g k)\<lparr>mod_kind := k, mod_gen := g\<rparr>)
            [NoLeaderAutomod, SeedingRulesAutomod, LevelThresholdsAutomod, NoSoloTankAutomod]),
       emit (ConfigLoaded g) (w\<lparr>generation := g + 1\<rparr>)))"

subsection \<open>The executor: audit, _do_punitions, do_punitions\<close>

definition audit ::
  "string option \<Rightarrow> string \<Rightarrow> string \<Rightarrow> PunishPlayer \<Rightarrow> string \<Rightarrow> world \<Rightarrow> world" where
  "audit discord_webhook_url command_name msg_prefix aplayer by w =
     (case discord_webhook_url of
        None \<Rightarrow> w
      | Some url \<Rightarrow> emit (SendToDiscordAudit msg_prefix aplayer command_name by [url] False) w)"

text \<open>A call on the command channel is issued (and recorded) whether or not it raises.\<close>

definition rcon_call :: "env \<Rightarrow> event \<Rightarrow> world \<Rightarrow> exn option \<times> world" where
  "rcon_call env c w = (rcon_reply env (trace w) c, emit c w)"

text \<open>
  The \<open>try\<close> block of \<open>_do_punitions\<close> for one player. The source tests the method
  three times in a row; a method has one value, so one branch runs.
\<close>

definition try_block :: "env \<Rightarrow> ActionMethod \<Rightarrow> PunishPlayer \<Rightarrow> world \<Rightarrow> exn option \<times> world" where
  "try_block env method aplayer w =
     (case method of
        MESSAGE \<Rightarrow>
          (case (if \<not> dry_run (details aplayer)
                 then rcon_call env
                        (RconMessagePlayer (Some (name aplayer)) (player_id aplayer)
                           (message (details aplayer)) (author (details aplayer)) None) w
                 else (None, w)) of
             (Some e, w1) \<Rightarrow> (Some e, w1)
           | (None, w1) \<Rightarrow>
               (None, audit (discord_audit_url (details aplayer)) ''message_player''
                        ''-> WARNING: '' aplayer (author (details aplayer)) w1))
      | PUNISH \<Rightarrow>
          (case (if \<not> dry_run (details aplayer)
                 then rcon_call env
                        (RconPunish (name aplayer) (message (details aplayer))
                           (author (details aplayer))) w
                 else (None, w)) of
             (Some e, w1) \<Rightarrow> (Some e, w1)
           | (None, w1) \<Rightarrow>
               (None, audit (discord_audit_url (details aplayer)) ''punish''
                        ''--> PUNISHING: '' aplayer (author (details aplayer)) w1))
      | KICK \<Rightarrow>
          (case (if \<not> dry_run (details aplayer)
                 then rcon_call env
                        (RconKick (name aplayer) (message (details aplayer))
                           (author (details aplayer)) (player_id aplayer)) w
                 else (None, w)) of
             (Some e, w1) \<Rightarrow> (Some e, w1)
           | (None, w1) \<Rightarrow>
               (None, audit (discord_audit_url (details aplayer)) ''kick''
                        ''---> KICKING <---: '' aplayer (author (details aplayer)) w1)))"

text \<open>The loop \<open>for m in mods: m.player_punish_failed(aplayer)\<close> of the handler.\<close>

fun punish_failed_loop :: "moderator list \<Rightarrow> PunishPlayer \<Rightarrow> world \<Rightarrow> exn option \<times> world" where
  "punish_failed_loop [] aplayer w = (None, w)"
| "punish_failed_loop (m # ms) aplayer w =
     (let w1 = emit (PlayerPunishFailedCall (mod_kind m, mod_gen m) aplayer) w in
      case player_punish_failed m (trace w) aplayer of
        Some e \<Rightarrow> (Some e, w1)
      | None \<Rightarrow> punish_failed_loop ms aplayer w1)"

text \<open>
  One turn of the loop of \<open>_do_punitions\<close>: the \<open>try\<close> block and its handler for
  \<open>CommandFailedError\<close> and \<open>HLLServerError\<close>. Any other exception leaves the function.
\<close>

definition do_one ::
  "env \<Rightarrow> ActionMethod \<Rightarrow> PunishPlayer \<Rightarrow> moderator list \<Rightarrow> world \<Rightarrow> exn option \<times> world" where
  "do_one env method aplayer mods w =
     (case try_block env method aplayer w of
        (None, w1) \<Rightarrow> (None, w1)
      | (Some e, w1) \<Rightarrow>
          if e = CommandFailedError \<or> e = HLLServerError then
            (let w2 = emit (Log WARNING ''Couldn't `%s` player `%s`. Will retry.'') w1 in
             case method of
               PUNISH \<Rightarrow> punish_failed_loop mods aplayer w2
             | KICK \<Rightarrow>
                 (None, audit (discord_audit_url (details aplayer)) ''kick''
                          ''---> KICK FAILED, will retry <---: '' aplayer
                          (author (details aplayer)) w2)
             | MESSAGE \<Rightarrow> (None, w2))
          else (Some e, w1))"

text \<open>\<open>_do_punitions\<close> (an Isabelle name cannot start with an underscore).\<close>

fun do_punitions_pass ::
  "env \<Rightarrow> ActionMethod \<Rightarrow> PunishPlayer list \<Rightarrow> moderator list \<Rightarrow> world \<Rightarrow> exn option \<times> world" where
  "do_punitions_pass env method [] mods w = (None, w)"
| "do_punitions_pass env method (aplayer # rest) mods w =
     (case do_one env method aplayer mods w of
        (Some e, w1) \<Rightarrow> (Some e, w1)
      | (None, w1) \<Rightarrow> do_punitions_pass env method rest mods w1)"

text \<open>
  \<open>do_punitions\<close>: Python evaluates the argument \<open>enabled_moderators()\<close> of each of the
  three calls just before that call.
\<close>

definition do_punitions :: "env \<Rightarrow> PunitionsToApply \<Rightarrow> world \<Rightarrow> exn option \<times> world" where
  "do_punitions env punitions w =
     (let w0 = emit (Log DEBUG (if punitions_bool env punitions
                                then ''Automod will apply the following punitions %s''
                                else ''Automod did not suggest any punitions'')) w;
          (mods1, w1) = enabled_moderators env w0 in
      case do_punitions_pass env MESSAGE (warning punitions) mods1 w1 of
        (Some e, w2) \<Rightarrow> (Some e, w2)
      | (None, w2) \<Rightarrow>
          (let (mods2, w3) = enabled_moderators env w2 in
           case do_punitions_pass env PUNISH (punish punitions) mods2 w3 of
             (Some e, w4) \<Rightarrow> (Some e, w4)
           | (None, w4) \<Rightarrow>
               (let (mods3, w5) = enabled_moderators env w4 in
                do_punitions_pass env KICK (kick punitions) mods3 w5)))"

subsection \<open>The warm-up guard and the poll cycle\<close>

text \<open>
  The key store is taken as reliable. A key leaves it when its time to live runs out;
  no time passes inside one call of this module.
\<close>

definition is_first_run_done :: "world \<Rightarrow> bool \<times> world" where
  "is_first_run_done w = (redis w first_run_done_key \<noteq> None, emit (RedisExists first_run_done_key) w)"

definition set_first_run_done :: "world \<Rightarrow> world" where
  "set_first_run_done w =
     emit (RedisSetex first_run_done_key (4 * 60) ''1'')
       (w\<lparr>redis := (redis w)(first_run_done_key \<mapsto> (4 * 60, ''1''))\<rparr>)"

definition punish_squads :: "env \<Rightarrow> world \<Rightarrow> exn option \<times> world" where
  "punish_squads env w =
     (let (mods, w1) = enabled_moderators env w in
      if length mods = 0 then (None, emit (Log DEBUG ''No automod is enabled'') w1)
      else
        (case get_punitions_to_apply env mods w1 of
           (Inl e, w2) \<Rightarrow> (Some e, w2)
         | (Inr punitions, w2) \<Rightarrow>
             (case do_punitions env punitions w2 of
                (Some e, w3) \<Rightarrow> (Some e, w3)
              | (None, w3) \<Rightarrow> (None, set_first_run_done w3))))"

subsection \<open>The kill hook\<close>

text \<open>The loop over the moderators that have an \<open>on_kill\<close> method.\<close>

fun on_kill_loop ::
  "moderator list \<Rightarrow> string \<Rightarrow> PunitionsToApply \<Rightarrow> world \<Rightarrow> (exn + PunitionsToApply) \<times> world" where
  "on_kill_loop [] log acc w = (Inr acc, w)"
| "on_kill_loop (m # ms) log acc w =
     (case on_kill_hook m of
        None \<Rightarrow> on_kill_loop ms log acc w
      | Some hook \<Rightarrow>
          (let w1 = emit (OnKillCall (mod_kind m, mod_gen m) log) w in
           case hook (trace w) log of
             Inl e \<Rightarrow> (Inl e, w1)
           | Inr p \<Rightarrow> on_kill_loop ms log (merge acc p) w1))"

definition on_kill :: "env \<Rightarrow> string \<Rightarrow> world \<Rightarrow> exn option \<times> world" where
  "on_kill env log w =
     (let (done, w0) = is_first_run_done w in
      if \<not> done then
        (None, emit (Log DEBUG
           ''Kill event received, but not automod run done yet, giving mods time to warmup'') w0)
      else
        (let (mods, w1) = enabled_moderators env w0 in
         if length mods = 0 then (None, emit (Log DEBUG ''No automod is enabled'') w1)
         else
           (case on_kill_loop mods log empty_punitions w1 of
              (Inl e, w2) \<Rightarrow> (Some e, w2)
            | (Inr punitions, w2) \<Rightarrow> do_punitions env punitions w2)))"

subsection \<open>The connect hook and its timers\<close>

text \<open>
  The closure \<open>notify_player\<close>: the \<open>try\<close> statement encloses the whole \<open>for\<close> loop
  and its handler catches every exception.
\<close>

fun notify_loop :: "env \<Rightarrow> PunishPlayer list \<Rightarrow> world \<Rightarrow> exn option \<times> world" where
  "notify_loop env [] w = (None, w)"
| "notify_loop env (p # ps) w =
     (case rcon_call env
             (RconMessagePlayer None (player_id p) (message (details p))
                (author (details p)) (Some False)) w of
        (Some e, w1) \<Rightarrow> (Some e, w1)
      | (None, w1) \<Rightarrow> notify_loop env ps w1)"

definition notify_player :: "env \<Rightarrow> string \<Rightarrow> string \<Rightarrow> PunitionsToApply \<Rightarrow> world \<Rightarrow> world" where
  "notify_player env nm pid punitions w =
     (case notify_loop env (warning punitions) w of
        (Some e, w1) \<Rightarrow> emit (Log ERROR ''Could not message player '%s' (%s) : %s'') w1
      | (None, w1) \<Rightarrow> w1)"

fun on_connected_loop ::
  "moderator list \<Rightarrow> string \<Rightarrow> string \<Rightarrow> string option \<Rightarrow> PunitionsToApply \<Rightarrow> world \<Rightarrow>
   (exn + PunitionsToApply) \<times> world" where
  "on_connected_loop [] nm pid detail acc w = (Inr acc, w)"
| "on_connected_loop (m # ms) nm pid detail acc w =
     (case on_connected_hook m of
        None \<Rightarrow> on_connected_loop ms nm pid detail acc w
      | Some hook \<Rightarrow>
          (let w1 = emit (OnConnectedCall (mod_kind m, mod_gen m) nm pid detail) w in
           case hook (trace w) nm pid detail of
             Inl e \<Rightarrow> (Inl e, w1)
           | Inr p \<Rightarrow> on_connected_loop ms nm pid detail (merge acc p) w1))"

text \<open>
  \<open>t = Timer(20, notify_player); pendingTimers[player_id] = t; t.start()\<close>. A timer
  is known by its position in \<open>timers\<close>; the closure keeps the name, the player
  identifier and the aggregate.
\<close>

definition start_timer :: "string \<Rightarrow> string \<Rightarrow> PunitionsToApply \<Rightarrow> world \<Rightarrow> world" where
  "start_timer nm pid punitions w =
     (let t = length (timers w) in
      emit (TimerStarted t)
        (w\<lparr>timers := timers w @
              [\<lparr>interval = 20, t_name = nm, t_player_id = pid,
                t_punitions = punitions, status = Started\<rparr>],
           pendingTimers := (pendingTimers w)(pid \<mapsto> t)\<rparr>))"

text \<open>
  The part of \<open>on_connected\<close> between the guards and the test on the warnings: the
  detail fetch, whose failure is caught and logged and leaves \<open>None\<close>, and the loop
  that merges what the moderators' \<open>on_connected\<close> methods return.
\<close>

definition on_connected_merged ::
  "env \<Rightarrow> string \<Rightarrow> string \<Rightarrow> moderator list \<Rightarrow> world \<Rightarrow>
   (exn + PunitionsToApply) \<times> world" where
  "on_connected_merged env nm pid mods w1 =
     (let w2 = emit (RconGetDetailedPlayerInfo nm) w1;
          (detail, w3) =
            (case detailed_player_reply env (trace w1) nm of
               Inl e \<Rightarrow>
                 (None, emit (Log ERROR
                    ''get_detailed_player_info threw an exception for {name}: {e}'') w2)
             | Inr d \<Rightarrow> (Some d, w2)) in
      on_connected_loop mods nm pid detail empty_punitions w3)"

definition on_connected :: "env \<Rightarrow> string \<Rightarrow> string \<Rightarrow> world \<Rightarrow> exn option \<times> world" where
  "on_connected env nm pid w =
     (let (done, w0) = is_first_run_done w in
      if \<not> done then
        (None, emit (Log DEBUG
           ''Kill event received, but not automod run done yet, giving mods time to warmup'') w0)
      else
        (let (mods, w1) = enabled_moderators env w0 in
         if length mods = 0 then (None, emit (Log DEBUG ''No automod is enabled'') w1)
         else
           (case on_connected_merged env nm pid mods w1 of
              (Inl e, w4) \<Rightarrow> (Some e, w4)
            | (Inr punitions, w4) \<Rightarrow>
                if length (warning punitions) = 0 then (None, w4)
                else (None, start_timer nm pid punitions w4))))"

text \<open>
  What Python's \<open>threading.Timer\<close> does when the interval of a started timer has
  passed: it runs the function unless \<open>cancel()\<close> was called, and is finished. This
  module never calls \<open>cancel()\<close>, so a started timer runs its function once.
\<close>

definition timer_fire :: "env \<Rightarrow> nat \<Rightarrow> world \<Rightarrow> world" where
  "timer_fire env t w =
     (if t < length (timers w) \<and> status (timers w ! t) = Started then
        (let tm = timers w ! t;
             w1 = notify_player env (t_name tm) (t_player_id tm) (t_punitions tm) w in
         w1\<lparr>timers := (timers w1)[t := (timers w1 ! t)\<lparr>status := Finished\<rparr>]\<rparr>)
      else w)"

subsection \<open>Reading a trace\<close>

text \<open>
  \<open>grows P w w'\<close>: the world \<open>w'\<close> is \<open>w\<close> with more events at the end of its trace,
  each of them satisfying \<open>P\<close>, and nothing else changed.
\<close>

definition grows :: "(event \<Rightarrow> bool) \<Rightarrow> world \<Rightarrow> world \<Rightarrow> bool" where
  "grows P w w' \<longleftrightarrow> (\<exists>evs. w' = w\<lparr>trace := trace w @ evs\<rparr> \<and> list_all P evs)"

text \<open>
  The events a pass of \<open>_do_punitions\<close> with a given method and moderator list may
  add: the command of that method, an audit under that method's command name, a
  failure callback (punish only, to one of the moderators passed in), a log line.
\<close>

definition pass_event :: "ActionMethod \<Rightarrow> moderator list \<Rightarrow> event \<Rightarrow> bool" where
  "pass_event method mods e \<longleftrightarrow>
     (case e of
        RconMessagePlayer n i m b s \<Rightarrow> method = MESSAGE
      | RconPunish n m b \<Rightarrow> method = PUNISH
      | RconKick n m b i \<Rightarrow> method = KICK
      | SendToDiscordAudit p a c b u s \<Rightarrow>
          c = (case method of MESSAGE \<Rightarrow> ''message_player'' | PUNISH \<Rightarrow> ''punish''
                 | KICK \<Rightarrow> ''kick'')
      | PlayerPunishFailedCall i a \<Rightarrow>
          method = PUNISH \<and> i \<in> set (map (\<lambda>m. (mod_kind m, mod_gen m)) mods)
      | Log l s \<Rightarrow> True
      | _ \<Rightarrow> False)"

text \<open>The method an event of the executor belongs to, if any.\<close>

fun event_method :: "event \<Rightarrow> ActionMethod option" where
  "event_method (RconMessagePlayer n i m b s) = Some MESSAGE"
| "event_method (RconPunish n m b) = Some PUNISH"
| "event_method (RconKick n m b i) = Some KICK"
| "event_method (SendToDiscordAudit p a c b u s) =
     (if c = ''message_player'' then Some MESSAGE
      else if c = ''punish'' then Some PUNISH
      else if c = ''kick'' then Some KICK else None)"
| "event_method (PlayerPunishFailedCall i a) = Some PUNISH"
| "event_method e = None"

text \<open>
  The command the executor sends for a player under a method, and the players of a
  collection for which it sends one.
\<close>

definition command_of :: "ActionMethod \<Rightarrow> PunishPlayer \<Rightarrow> event" where
  "command_of method aplayer =
     (case method of
        MESSAGE \<Rightarrow>
          RconMessagePlayer (Some (name aplayer)) (player_id aplayer)
            (message (details aplayer)) (author (details aplayer)) None
      | PUNISH \<Rightarrow>
          RconPunish (name aplayer) (message (details aplayer)) (author (details aplayer))
      | KICK \<Rightarrow>
          RconKick (name aplayer) (message (details aplayer)) (author (details aplayer))
            (player_id aplayer))"

definition live :: "PunishPlayer list \<Rightarrow> PunishPlayer list" where
  "live ps = filter (\<lambda>a. \<not> dry_run (details a)) ps"

text \<open>The message the deferred notifier sends for a warning.\<close>

definition notify_command :: "PunishPlayer \<Rightarrow> event" where
  "notify_command p =
     RconMessagePlayer None (player_id p) (message (details p)) (author (details p))
       (Some False)"

text \<open>
  The audit call the executor makes for a player under a method when the action is
  sent or is a dry run, and the world after that audit step: unchanged when the action
  has no audit target.
\<close>

definition audit_event :: "ActionMethod \<Rightarrow> PunishPlayer \<Rightarrow> string \<Rightarrow> event" where
  "audit_event method aplayer url =
     SendToDiscordAudit
       (case method of MESSAGE \<Rightarrow> ''-> WARNING: '' | PUNISH \<Rightarrow> ''--> PUNISHING: ''
          | KICK \<Rightarrow> ''---> KICKING <---: '')
       aplayer
       (case method of MESSAGE \<Rightarrow> ''message_player'' | PUNISH \<Rightarrow> ''punish''
          | KICK \<Rightarrow> ''kick'')
       (author (details aplayer)) [url] False"

definition audited :: "ActionMethod \<Rightarrow> PunishPlayer \<Rightarrow> world \<Rightarrow> world" where
  "audited method aplayer w =
     (case discord_audit_url (details aplayer) of
        None \<Rightarrow> w
      | Some url \<Rightarrow> w\<lparr>trace := trace w @ [audit_event method aplayer url]\<rparr>)"

text \<open>A command sent to the game server, as opposed to the other effects.\<close>

fun is_rcon :: "event \<Rightarrow> bool" where
  "is_rcon RconGetTeamView = True"
| "is_rcon RconGetGamestate = True"
| "is_rcon (RconGetDetailedPlayerInfo n) = True"
| "is_rcon (RconMessagePlayer n i m b s) = True"
| "is_rcon (RconPunish n m b) = True"
| "is_rcon (RconKick n m b i) = True"
| "is_rcon e = False"

text \<open>A read of the configuration; an effect of the executor.\<close>

fun is_config_load :: "event \<Rightarrow> bool" where
  "is_config_load (ConfigLoaded g) = True"
| "is_config_load e = False"

definition is_action :: "event \<Rightarrow> bool" where
  "is_action e \<longleftrightarrow> event_method e \<noteq> None"

text \<open>
  A call of \<open>punitions_to_apply\<close> that fits a team view: its team is in the view, and
  its unit is one of the squads of that team or, under the label Commander, the roster
  made of the commander that the team has. Other events are not constrained.
\<close>

definition engine_call_ok :: "team_view \<Rightarrow> event \<Rightarrow> bool" where
  "engine_call_ok tv e \<longleftrightarrow>
     (case e of
        PunitionsToApplyCall i squad_name team sq \<Rightarrow>
          (case tv team of
             None \<Rightarrow> False
           | Some entry \<Rightarrow>
               (squad_name, sq) \<in> set (squads entry) \<or>
               (case commander entry of
                  None \<Rightarrow> False
                | Some c \<Rightarrow>
                    squad_name = ''Commander'' \<and> sq = \<lparr>players = [c], extras = []\<rparr>))
      | _ \<Rightarrow> True)"

subsection \<open>Concrete worlds and environments\<close>

text \<open>
  Worlds, environments and aggregates on which the properties below are run: an
  environment in which every call succeeds and no moderator is enabled, and variations
  of it.
\<close>

definition quiet_moderator :: moderator where
  "quiet_moderator =
     \<lparr>mod_kind = NoLeaderAutomod, mod_gen = 0, enabled = False,
      punitions_to_apply = (\<lambda>h tv s t q g. Inr empty_punitions),
      on_kill_hook = None, on_connected_hook = None,
      player_punish_failed = (\<lambda>h a. None)\<rparr>"

definition quiet_env :: env where
  "quiet_env =
     \<lparr>rcon_reply = (\<lambda>h c. None),
      team_view_reply = (\<lambda>h. Inr (\<lambda>team. None)),
      gamestate_reply = (\<lambda>h. Inr []),
      detailed_player_reply = (\<lambda>h n. Inr []),
      construct = (\<lambda>g k. quiet_moderator),
      punitions_bool = (\<lambda>p. False)\<rparr>"

definition fresh_world :: world where
  "fresh_world =
     \<lparr>trace = [], redis = (\<lambda>k. None), generation = 0, timers = [],
      pendingTimers = (\<lambda>k. None)\<rparr>"

definition warmed_world :: world where
  "warmed_world = fresh_world\<lparr>redis := [first_run_done_key \<mapsto> (240, ''1'')]\<rparr>"

definition player_of :: "string \<Rightarrow> string \<Rightarrow> string \<Rightarrow> bool \<Rightarrow> string option \<Rightarrow> PunishPlayer" where
  "player_of pid nm msg dry url =
     \<lparr>player_id = pid, name = nm,
      details = \<lparr>author = ''automod'', message = msg, dry_run = dry,
                 discord_audit_url = url\<rparr>\<rparr>"

definition rejecting_env :: env where
  "rejecting_env = quiet_env\<lparr>rcon_reply := (\<lambda>h c. Some CommandFailedError)\<rparr>"

definition watchful_moderator :: moderator where
  "watchful_moderator =
     quiet_moderator\<lparr>enabled := True,
       punitions_to_apply := (\<lambda>h tv s t q g.
          Inr \<lparr>warning = [player_of ''7'' ''bob'' s False None], punish = [], kick = []\<rparr>)\<rparr>"

definition axis_only :: team_view where
  "axis_only =
     [''axis'' \<mapsto> \<lparr>commander = None,
                    squads = [(''able'', \<lparr>players = [''bob''], extras = []\<rparr>)]\<rparr>]"

definition warn_and_kick :: PunitionsToApply where
  "warn_and_kick =
     \<lparr>warning = [player_of ''7'' ''bob'' ''careful'' False None], punish = [],
      kick = [player_of ''7'' ''bob'' ''leave'' False None]\<rparr>"

definition shifting_env :: env where
  "shifting_env =
     rejecting_env\<lparr>construct := (\<lambda>g k.
        quiet_moderator\<lparr>enabled :=
          (g = 0 \<and> k = NoLeaderAutomod) \<or> (g = 1 \<and> k = NoSoloTankAutomod)\<rparr>)\<rparr>"

definition one_punish :: PunitionsToApply where
  "one_punish =
     \<lparr>warning = [], punish = [player_of ''7'' ''bob'' ''stop'' False None], kick = []\<rparr>"

definition strict_greeter :: moderator where
  "strict_greeter =
     quiet_moderator\<lparr>enabled := True,
       on_connected_hook := Some (\<lambda>h nm pid d. Inr warn_and_kick)\<rparr>"

definition strict_env :: env where
  "strict_env =
     quiet_env\<lparr>construct := (\<lambda>g k.
        if k = LevelThresholdsAutomod then strict_greeter else quiet_moderator)\<rparr>"

definition two_warnings :: PunitionsToApply where
  "two_warnings =
     \<lparr>warning = [player_of ''7'' ''bob'' ''first'' False None,
                 player_of ''7'' ''bob'' ''second'' False None],
      punish = [], kick = []\<rparr>"

definition flaky_env :: env where
  "flaky_env =
     quiet_env\<lparr>rcon_reply := (\<lambda>h c.
        if c = RconMessagePlayer None ''7'' ''first'' ''automod'' (Some False)
        then Some OtherException else None)\<rparr>"

definition greeter :: moderator where
  "greeter =
     quiet_moderator\<lparr>enabled := True,
       on_connected_hook := Some (\<lambda>h nm pid d.
         Inr \<lparr>warning =
                [player_of pid nm
                   (if TimerStarted 0 \<in> set h then ''welcome back'' else ''welcome'')
                   False None],
              punish = [], kick = []\<rparr>)\<rparr>"

definition greeting_env :: env where
  "greeting_env =
     quiet_env\<lparr>construct := (\<lambda>g k.
        if k = SeedingRulesAutomod then greeter else quiet_moderator)\<rparr>"

definition connected_once :: world where
  "connected_once = snd (on_connected greeting_env ''bob'' ''7'' warmed_world)"

definition connected_twice :: world where
  "connected_twice = snd (on_connected greeting_env ''bob'' ''7'' connected_once)"

definition axis_env :: env where
  "axis_env = quiet_env\<lparr>team_view_reply := (\<lambda>h. Inr axis_only)\<rparr>"

definition all_dry :: PunitionsToApply where
  "all_dry =
     \<lparr>warning = [player_of ''7'' ''bob'' ''careful'' True None],
      punish = [player_of ''7'' ''bob'' ''stop'' True (Some ''hook'')],
      kick = [player_of ''7'' ''bob'' ''leave'' True (Some ''hook'')]\<rparr>"

section \<open>Properties\<close>

subsection \<open>Basic facts\<close>

lemma trace_emit [simp]: "trace (emit e w) = trace w @ [e]"
  and redis_emit [simp]: "redis (emit e w) = redis w"
  and generation_emit [simp]: "generation (emit e w) = generation w"
  and timers_emit [simp]: "timers (emit e w) = timers w"
  and pendingTimers_emit [simp]: "pendingTimers (emit e w) = pendingTimers w"
  by (simp_all add: emit_def)

lemma try_block_dry_run:
  "dry_run (details aplayer) \<Longrightarrow>
   try_block env method aplayer w =
     (None, audit (discord_audit_url (details aplayer))
        (case method of MESSAGE \<Rightarrow> ''message_player'' | PUNISH \<Rightarrow> ''punish'' | KICK \<Rightarrow> ''kick'')
        (case method of MESSAGE \<Rightarrow> ''-> WARNING: '' | PUNISH \<Rightarrow> ''--> PUNISHING: ''
           | KICK \<Rightarrow> ''---> KICKING <---: '')
        aplayer (author (details aplayer)) w)"
  by (cases "method") (simp_all add: try_block_def)

subsection \<open>Growth of the trace\<close>


lemma grows_refl: "grows P w w"
  unfolding grows_def by (rule exI [of _ "[]"]) simp

lemma grows_emit: "P e \<Longrightarrow> grows P w (emit e w)"
  unfolding grows_def by (rule exI [of _ "[e]"]) (simp add: emit_def)

lemma grows_trans: "grows P w w1 \<Longrightarrow> grows P w1 w2 \<Longrightarrow> grows P w w2"
  unfolding grows_def
proof (elim exE conjE)
  fix xs ys
  assume "w1 = w\<lparr>trace := trace w @ xs\<rparr>" "w2 = w1\<lparr>trace := trace w1 @ ys\<rparr>"
    and "list_all P xs" "list_all P ys"
  then have "w2 = w\<lparr>trace := trace w @ (xs @ ys)\<rparr> \<and> list_all P (xs @ ys)"
    by simp
  then show "\<exists>evs. w2 = w\<lparr>trace := trace w @ evs\<rparr> \<and> list_all P evs" ..
qed

lemma grows_emit_then: "P e \<Longrightarrow> grows P (emit e w) w' \<Longrightarrow> grows P w w'"
  by (blast intro: grows_trans grows_emit)

lemma grows_then_emit: "grows P w w' \<Longrightarrow> P e \<Longrightarrow> grows P w (emit e w')"
  by (blast intro: grows_trans grows_emit)

lemma audit_grows:
  "P (SendToDiscordAudit p a c b [the u] False) \<Longrightarrow> grows P w (audit u c p a b w)"
  by (cases u) (auto simp: audit_def intro: grows_refl grows_emit)

lemma rcon_call_grows: "P c \<Longrightarrow> rcon_call env c w = (r, w') \<Longrightarrow> grows P w w'"
  by (auto simp: rcon_call_def intro: grows_emit)

lemma guarded_call_grows:
  "P c \<Longrightarrow> (if d then rcon_call env c w else (None, w)) = (r, w') \<Longrightarrow> grows P w w'"
  by (cases d) (auto intro: rcon_call_grows grows_refl)

lemma call_then_audit_grows:
  assumes "P c" and "P (SendToDiscordAudit p a cn b [the u] False)"
    and "(case (if d then rcon_call env c w else (None, w)) of
            (Some e, w1) \<Rightarrow> (Some e, w1)
          | (None, w1) \<Rightarrow> (None, audit u cn p a b w1)) = (r, w')"
  shows "grows P w w'"
proof (cases "if d then rcon_call env c w else (None, w)")
  case (Pair r1 w1)
  with assms(1) have g: "grows P w w1"
    by (rule guarded_call_grows)
  show ?thesis
  proof (cases r1)
    case None
    with assms(3) Pair have "w' = audit u cn p a b w1" by simp
    moreover have "grows P w1 (audit u cn p a b w1)"
      using assms(2) by (rule audit_grows)
    ultimately show ?thesis using g by (auto intro: grows_trans)
  next
    case (Some e)
    with assms(3) Pair g show ?thesis by simp
  qed
qed

lemma try_block_grows:
  assumes "try_block env method a w = (r, w')"
  shows "grows (pass_event method mods) w w'"
proof (cases "method")
  case MESSAGE
  show ?thesis
    by (rule call_then_audit_grows [OF _ _ assms [unfolded try_block_def MESSAGE ActionMethod.case]])
       (simp_all add: pass_event_def MESSAGE)
next
  case PUNISH
  show ?thesis
    by (rule call_then_audit_grows [OF _ _ assms [unfolded try_block_def PUNISH ActionMethod.case]])
       (simp_all add: pass_event_def PUNISH)
next
  case KICK
  show ?thesis
    by (rule call_then_audit_grows [OF _ _ assms [unfolded try_block_def KICK ActionMethod.case]])
       (simp_all add: pass_event_def KICK)
qed

lemma punish_failed_loop_grows:
  "punish_failed_loop ms a w = (r, w') \<Longrightarrow> set ms \<subseteq> set mods \<Longrightarrow>
   grows (pass_event PUNISH mods) w w'"
proof (induction ms arbitrary: w)
  case Nil
  then show ?case by (simp add: grows_refl)
next
  case (Cons m ms)
  have e: "pass_event PUNISH mods (PlayerPunishFailedCall (mod_kind m, mod_gen m) a)"
    using Cons.prems(2) by (auto simp: pass_event_def)
  show ?case
  proof (cases "player_punish_failed m (trace w) a")
    case None
    with Cons.prems have
      "punish_failed_loop ms a (emit (PlayerPunishFailedCall (mod_kind m, mod_gen m) a) w) = (r, w')"
      by (simp add: Let_def)
    with Cons.IH Cons.prems(2) e show ?thesis
      by (auto intro: grows_emit_then)
  next
    case (Some x)
    with Cons.prems e show ?thesis
      by (auto simp: Let_def intro: grows_emit)
  qed
qed

lemma do_one_grows:
  assumes "do_one env method a mods w = (r, w')"
  shows "grows (pass_event method mods) w w'"
proof (cases "try_block env method a w")
  case (Pair r1 w1)
  then have g1: "grows (pass_event method mods) w w1"
    by (rule try_block_grows)
  have lg: "pass_event method mods (Log WARNING ''Couldn't `%s` player `%s`. Will retry.'')"
    by (simp add: pass_event_def)
  show ?thesis
  proof (cases r1)
    case None
    with assms Pair g1 show ?thesis by (simp add: do_one_def)
  next
    case (Some e)
    show ?thesis
    proof (cases "e = CommandFailedError \<or> e = HLLServerError")
      case False
      with assms Pair Some g1 show ?thesis by (simp add: do_one_def)
    next
      case True
      let ?w2 = "emit (Log WARNING ''Couldn't `%s` player `%s`. Will retry.'') w1"
      have g2: "grows (pass_event method mods) w ?w2"
        using g1 lg by (rule grows_then_emit)
      show ?thesis
      proof (cases "method")
        case MESSAGE
        with assms Pair Some True g2 show ?thesis by (auto simp: do_one_def Let_def)
      next
        case PUNISH
        with assms Pair Some True have "punish_failed_loop mods a ?w2 = (r, w')"
          by (auto simp: do_one_def Let_def)
        then have "grows (pass_event PUNISH mods) ?w2 w'"
          by (rule punish_failed_loop_grows) simp
        with g2 PUNISH show ?thesis by (auto intro: grows_trans)
      next
        case KICK
        with assms Pair Some True have
          "w' = audit (discord_audit_url (details a)) ''kick''
                  ''---> KICK FAILED, will retry <---: '' a (author (details a)) ?w2"
          by (auto simp: do_one_def Let_def)
        moreover have "grows (pass_event method mods) ?w2
           (audit (discord_audit_url (details a)) ''kick''
                  ''---> KICK FAILED, will retry <---: '' a (author (details a)) ?w2)"
          by (rule audit_grows) (simp add: pass_event_def KICK)
        ultimately show ?thesis using g2 by (auto intro: grows_trans)
      qed
    qed
  qed
qed

lemma do_punitions_pass_grows:
  "do_punitions_pass env method ps mods w = (r, w') \<Longrightarrow> grows (pass_event method mods) w w'"
proof (induction ps arbitrary: w)
  case Nil
  then show ?case by (simp add: grows_refl)
next
  case (Cons a ps)
  obtain r1 w1 where one: "do_one env method a mods w = (r1, w1)"
    by (cases "do_one env method a mods w")
  then have g1: "grows (pass_event method mods) w w1"
    by (rule do_one_grows)
  show ?case
  proof (cases r1)
    case None
    with Cons.prems one have "do_punitions_pass env method ps mods w1 = (r, w')"
      by simp
    then have "grows (pass_event method mods) w1 w'"
      by (rule Cons.IH)
    with g1 show ?thesis by (rule grows_trans)
  next
    case (Some e)
    with Cons.prems one g1 show ?thesis by simp
  qed
qed



lemma grows_mono: "grows P w w' \<Longrightarrow> (\<And>e. P e \<Longrightarrow> Q e) \<Longrightarrow> grows Q w w'"
  by (auto simp: grows_def list_all_iff)


subsection \<open>No moderator enabled\<close>

text \<open>
  C7. When \<open>enabled_moderators\<close> finds no enabled moderator, \<open>punish_squads\<close> returns
  after reading the configuration and writing a debug line: no command goes to the game
  server, neither a state fetch nor an action, and the key store, hence the warm-up
  flag, is as it was.
\<close>

theorem punish_squads_no_moderators:
  "fst (enabled_moderators env w) = [] \<Longrightarrow>
   punish_squads env w =
     (None, w\<lparr>generation := generation w + 1,
              trace := trace w @
                [ConfigLoaded (generation w), Log DEBUG ''No automod is enabled'']\<rparr>)"
  by (simp add: punish_squads_def enabled_moderators_def Let_def emit_def)

theorem punish_squads_no_moderators_witness:
  "fst (enabled_moderators quiet_env fresh_world) = [] \<and>
   filter is_rcon (trace (snd (punish_squads quiet_env fresh_world))) = [] \<and>
   redis (snd (punish_squads quiet_env fresh_world)) first_run_done_key = None"
  using punish_squads_no_moderators [of quiet_env fresh_world]
  by (simp add: enabled_moderators_def quiet_env_def quiet_moderator_def fresh_world_def)

subsection \<open>Warm-up\<close>

text \<open>
  C8. A kill event that arrives while the warm-up key is not in the key store: the hook
  asks the key store, writes a debug line and returns. It constructs no moderator, calls
  no \<open>on_kill\<close> method and applies no punition.
\<close>

theorem on_kill_not_ready:
  "redis w first_run_done_key = None \<Longrightarrow>
   on_kill env log w =
     (None, w\<lparr>trace := trace w @
        [RedisExists first_run_done_key,
         Log DEBUG
           ''Kill event received, but not automod run done yet, giving mods time to warmup'']\<rparr>)"
  by (simp add: on_kill_def is_first_run_done_def emit_def)

theorem on_kill_not_ready_witness:
  "redis fresh_world first_run_done_key = None \<and>
   trace (snd (on_kill quiet_env ''kill'' fresh_world)) =
     [RedisExists first_run_done_key,
      Log DEBUG
        ''Kill event received, but not automod run done yet, giving mods time to warmup'']"
  using on_kill_not_ready [of fresh_world quiet_env "''kill''"]
  by (simp add: fresh_world_def)

subsection \<open>A rejected punish\<close>





subsection \<open>rcon commands of a pass\<close>

lemma audit_rcon [simp]: "filter is_rcon (trace (audit u c p a b w)) = filter is_rcon (trace w)"
  by (cases u) (simp_all add: audit_def)

lemma command_of_is_rcon [simp]: "is_rcon (command_of m a)"
  by (cases m) (simp_all add: command_of_def)

lemma try_block_rcon:
  "try_block env m a w = (r, w1) \<Longrightarrow>
   filter is_rcon (trace w1) =
     filter is_rcon (trace w) @ (if dry_run (details a) then [] else [command_of m a])"
  by (cases m)
     (auto simp: try_block_def rcon_call_def command_of_def split: if_splits option.splits)

lemma punish_failed_loop_rcon:
  "punish_failed_loop ms a w = (r, w') \<Longrightarrow> filter is_rcon (trace w') = filter is_rcon (trace w)"
proof (induction ms arbitrary: w)
  case Nil
  then show ?case by simp
next
  case (Cons m ms)
  show ?case
  proof (cases "player_punish_failed m (trace w) a")
    case None
    with Cons.prems have
      "punish_failed_loop ms a (emit (PlayerPunishFailedCall (mod_kind m, mod_gen m) a) w) = (r, w')"
      by (simp add: Let_def)
    from Cons.IH [OF this] show ?thesis by simp
  next
    case (Some x)
    with Cons.prems show ?thesis by (auto simp: Let_def)
  qed
qed

lemma do_one_rcon:
  assumes "do_one env m a mods w = (r, w')"
  shows "filter is_rcon (trace w') =
     filter is_rcon (trace w) @ (if dry_run (details a) then [] else [command_of m a])"
proof (cases "try_block env m a w")
  case (Pair r1 w1)
  note tb = try_block_rcon [OF Pair]
  show ?thesis
  proof (cases r1)
    case None
    with assms Pair tb show ?thesis by (simp add: do_one_def)
  next
    case (Some e)
    show ?thesis
    proof (cases "e = CommandFailedError \<or> e = HLLServerError")
      case False
      with assms Pair Some tb show ?thesis by (simp add: do_one_def)
    next
      case True
      let ?w2 = "emit (Log WARNING ''Couldn't `%s` player `%s`. Will retry.'') w1"
      have w2: "filter is_rcon (trace ?w2) = filter is_rcon (trace w1)" by simp
      show ?thesis
      proof (cases m)
        case MESSAGE
        with assms Pair Some True have "w' = ?w2" by (auto simp: do_one_def Let_def)
        with tb w2 show ?thesis by simp
      next
        case PUNISH
        with assms Pair Some True have "punish_failed_loop mods a ?w2 = (r, w')"
          by (auto simp: do_one_def Let_def)
        from punish_failed_loop_rcon [OF this] tb w2 show ?thesis by simp
      next
        case KICK
        with assms Pair Some True have
          "w' = audit (discord_audit_url (details a)) ''kick''
                  ''---> KICK FAILED, will retry <---: '' a (author (details a)) ?w2"
          by (auto simp: do_one_def Let_def)
        with tb w2 show ?thesis by simp
      qed
    qed
  qed
qed

lemma live_Cons:
  "live (a # ps) = (if dry_run (details a) then live ps else a # live ps)"
  by (simp add: live_def)

lemma do_punitions_pass_rcon:
  "do_punitions_pass env m ps mods w = (r, w') \<Longrightarrow>
   \<exists>pre. filter is_rcon (trace w') = filter is_rcon (trace w) @ pre \<and>
         prefix pre (map (command_of m) (live ps)) \<and>
         (r = None \<longrightarrow> pre = map (command_of m) (live ps))"
proof (induction ps arbitrary: w)
  case Nil
  then show ?case by (simp add: live_def)
next
  case (Cons a ps)
  obtain r1 w1 where one: "do_one env m a mods w = (r1, w1)"
    by (cases "do_one env m a mods w")
  let ?here = "if dry_run (details a) then [] else [command_of m a]"
  have h: "filter is_rcon (trace w1) = filter is_rcon (trace w) @ ?here"
    using one by (rule do_one_rcon)
  have split: "map (command_of m) (live (a # ps)) = ?here @ map (command_of m) (live ps)"
    by (simp add: live_Cons)
  show ?case
  proof (cases r1)
    case None
    with Cons.prems one have "do_punitions_pass env m ps mods w1 = (r, w')" by simp
    from Cons.IH [OF this] obtain pre where
      pre: "filter is_rcon (trace w') = filter is_rcon (trace w1) @ pre"
        "prefix pre (map (command_of m) (live ps))"
        "r = None \<longrightarrow> pre = map (command_of m) (live ps)"
      by blast
    have "filter is_rcon (trace w') = filter is_rcon (trace w) @ (?here @ pre)"
      using pre(1) h by simp
    moreover have "prefix (?here @ pre) (map (command_of m) (live (a # ps)))"
      using pre(2) unfolding split by simp
    moreover have "r = None \<longrightarrow> ?here @ pre = map (command_of m) (live (a # ps))"
      using pre(3) unfolding split by simp
    ultimately show ?thesis by blast
  next
    case (Some e)
    with Cons.prems one have "r = Some e" "w' = w1" by simp_all
    moreover have "prefix ?here (map (command_of m) (live (a # ps)))"
      unfolding split by simp
    ultimately show ?thesis using h by blast
  qed
qed

subsection \<open>Stages of do_punitions\<close>

lemma enabled_moderators_world:
  "enabled_moderators env w = (mods, w1) \<Longrightarrow>
   w1 = w\<lparr>generation := generation w + 1, trace := trace w @ [ConfigLoaded (generation w)]\<rparr>"
  by (auto simp: enabled_moderators_def Let_def emit_def)

lemma mods_of_list:
  "m \<in> set (filter enabled
       (map (\<lambda>k. (construct env g k)\<lparr>mod_kind := k, mod_gen := g\<rparr>) ks)) \<Longrightarrow>
   mod_gen m = g \<and> enabled (construct env g (mod_kind m))"
  by auto

lemma enabled_moderators_mods:
  assumes "enabled_moderators env w = (mods, w1)" and "m \<in> set mods"
  shows "mod_gen m = generation w \<and> enabled (construct env (generation w) (mod_kind m))"
proof -
  have "mods = filter enabled
       (map (\<lambda>k. (construct env (generation w) k)\<lparr>mod_kind := k, mod_gen := generation w\<rparr>)
          [NoLeaderAutomod, SeedingRulesAutomod, LevelThresholdsAutomod, NoSoloTankAutomod])"
    using assms(1) by (simp only: enabled_moderators_def Let_def prod.inject)
  with assms(2) show ?thesis
    by (simp only: mods_of_list)
qed

lemma do_punitions_stages:
  assumes "do_punitions env p w = (r, w')"
  obtains s mods1 w1 r1 w2 mods2 w3 r2 w4 mods3 w5 r3 w6 where
    "enabled_moderators env (emit (Log DEBUG s) w) = (mods1, w1)"
    "do_punitions_pass env MESSAGE (warning p) mods1 w1 = (r1, w2)"
    "enabled_moderators env w2 = (mods2, w3)"
    "do_punitions_pass env PUNISH (punish p) mods2 w3 = (r2, w4)"
    "enabled_moderators env w4 = (mods3, w5)"
    "do_punitions_pass env KICK (kick p) mods3 w5 = (r3, w6)"
    "(r, w') = (case r1 of Some e \<Rightarrow> (r1, w2) | None \<Rightarrow>
                 (case r2 of Some e \<Rightarrow> (r2, w4) | None \<Rightarrow> (r3, w6)))"
proof -
  define s where "s = (if punitions_bool env p
                                then ''Automod will apply the following punitions %s''
                                else ''Automod did not suggest any punitions'')"
  obtain mods1 w1 where a: "enabled_moderators env (emit (Log DEBUG s) w) = (mods1, w1)"
    by (cases "enabled_moderators env (emit (Log DEBUG s) w)")
  obtain r1 w2 where b: "do_punitions_pass env MESSAGE (warning p) mods1 w1 = (r1, w2)"
    by (cases "do_punitions_pass env MESSAGE (warning p) mods1 w1")
  obtain mods2 w3 where c: "enabled_moderators env w2 = (mods2, w3)"
    by (cases "enabled_moderators env w2")
  obtain r2 w4 where d: "do_punitions_pass env PUNISH (punish p) mods2 w3 = (r2, w4)"
    by (cases "do_punitions_pass env PUNISH (punish p) mods2 w3")
  obtain mods3 w5 where e: "enabled_moderators env w4 = (mods3, w5)"
    by (cases "enabled_moderators env w4")
  obtain r3 w6 where f: "do_punitions_pass env KICK (kick p) mods3 w5 = (r3, w6)"
    by (cases "do_punitions_pass env KICK (kick p) mods3 w5")
  have "(r, w') = (case r1 of Some e \<Rightarrow> (r1, w2) | None \<Rightarrow>
                 (case r2 of Some e \<Rightarrow> (r2, w4) | None \<Rightarrow> (r3, w6)))"
    using assms a b c d e f
    by (auto simp: do_punitions_def s_def [symmetric] split: option.splits)
  with a b c d e f show ?thesis by (rule that)
qed



lemma enabled_moderators_rcon:
  "enabled_moderators env w = (mods, w1) \<Longrightarrow> filter is_rcon (trace w1) = filter is_rcon (trace w)"
  by (auto simp: enabled_moderators_def Let_def)

subsection \<open>Order of the passes\<close>

text \<open>
  C5. The commands that one call of \<open>do_punitions\<close> sends to the game server are, in
  this order, the messages for the warnings, the punishes, the kicks (each for the entries
  that are not dry runs, in the order of the collection). A call that returns sends all
  of them; a call that an exception ends sends a beginning of that sequence. So a
  warning is never sent after a kick of the same call.
\<close>

theorem do_punitions_order:
  assumes "do_punitions env p w = (r, w')"
  shows "\<exists>pre. filter is_rcon (trace w') = filter is_rcon (trace w) @ pre \<and>
           prefix pre (map (command_of MESSAGE) (live (warning p)) @
                       map (command_of PUNISH) (live (punish p)) @
                       map (command_of KICK) (live (kick p))) \<and>
           (r = None \<longrightarrow>
              pre = map (command_of MESSAGE) (live (warning p)) @
                    map (command_of PUNISH) (live (punish p)) @
                    map (command_of KICK) (live (kick p)))"
proof -
  let ?A = "map (command_of MESSAGE) (live (warning p))"
  let ?B = "map (command_of PUNISH) (live (punish p))"
  let ?C = "map (command_of KICK) (live (kick p))"
  from assms obtain s mods1 w1 r1 w2 mods2 w3 r2 w4 mods3 w5 r3 w6 where
    e1: "enabled_moderators env (emit (Log DEBUG s) w) = (mods1, w1)" and
    p1: "do_punitions_pass env MESSAGE (warning p) mods1 w1 = (r1, w2)" and
    e2: "enabled_moderators env w2 = (mods2, w3)" and
    p2: "do_punitions_pass env PUNISH (punish p) mods2 w3 = (r2, w4)" and
    e3: "enabled_moderators env w4 = (mods3, w5)" and
    p3: "do_punitions_pass env KICK (kick p) mods3 w5 = (r3, w6)" and
    res: "(r, w') = (case r1 of Some e \<Rightarrow> (r1, w2) | None \<Rightarrow>
                 (case r2 of Some e \<Rightarrow> (r2, w4) | None \<Rightarrow> (r3, w6)))"
    by (rule do_punitions_stages)
  have t1: "filter is_rcon (trace w1) = filter is_rcon (trace w)"
    using enabled_moderators_rcon [OF e1] by simp
  from do_punitions_pass_rcon [OF p1] obtain a where
    a: "filter is_rcon (trace w2) = filter is_rcon (trace w1) @ a" "prefix a ?A"
       "r1 = None \<longrightarrow> a = ?A"
    by blast
  from do_punitions_pass_rcon [OF p2] obtain b where
    b: "filter is_rcon (trace w4) = filter is_rcon (trace w3) @ b" "prefix b ?B"
       "r2 = None \<longrightarrow> b = ?B"
    by blast
  from do_punitions_pass_rcon [OF p3] obtain c where
    c: "filter is_rcon (trace w6) = filter is_rcon (trace w5) @ c" "prefix c ?C"
       "r3 = None \<longrightarrow> c = ?C"
    by blast
  note t3 = enabled_moderators_rcon [OF e2]
  note t5 = enabled_moderators_rcon [OF e3]
  show ?thesis
  proof (cases r1)
    case (Some x)
    with res have "r = Some x" "w' = w2" by simp_all
    moreover have "prefix a (?A @ ?B @ ?C)"
      using a(2) by (rule prefix_prefix)
    ultimately show ?thesis using a(1) t1 by auto
  next
    case None
    note r1 = this
    with a have aA: "a = ?A" by simp
    show ?thesis
    proof (cases r2)
      case (Some x)
      with res r1 have "r = Some x" "w' = w4" by simp_all
      moreover have "filter is_rcon (trace w4) = filter is_rcon (trace w) @ (?A @ b)"
        using a(1) b(1) t1 t3 aA by simp
      moreover have "prefix (?A @ b) (?A @ ?B @ ?C)"
        using b(2) by (simp add: prefix_prefix)
      ultimately show ?thesis by blast
    next
      case None
      with b have bB: "b = ?B" by simp
      from res r1 None have rr: "r = r3" "w' = w6" by simp_all
      have "filter is_rcon (trace w6) = filter is_rcon (trace w) @ (?A @ ?B @ c)"
        using a(1) b(1) c(1) t1 t3 t5 aA bB by simp
      moreover have "prefix (?A @ ?B @ c) (?A @ ?B @ ?C)"
        using c(2) by simp
      moreover have "r = None \<longrightarrow> ?A @ ?B @ c = ?A @ ?B @ ?C"
        using c(3) rr by simp
      ultimately show ?thesis using rr by blast
    qed
  qed
qed

theorem do_punitions_order_witness:
  "filter is_rcon (trace (snd (do_punitions quiet_env warn_and_kick fresh_world))) =
     [RconMessagePlayer (Some ''bob'') ''7'' ''careful'' ''automod'' None,
      RconKick ''bob'' ''leave'' ''automod'' ''7'']"
proof -
  have ret: "fst (do_punitions quiet_env warn_and_kick fresh_world) = None"
    by (simp add: do_punitions_def enabled_moderators_def quiet_env_def quiet_moderator_def
          warn_and_kick_def player_of_def do_one_def try_block_def rcon_call_def audit_def
          fresh_world_def emit_def Let_def)
  have "do_punitions quiet_env warn_and_kick fresh_world =
        (None, snd (do_punitions quiet_env warn_and_kick fresh_world))"
    using ret by (simp add: prod_eq_iff)
  from do_punitions_order [OF this] show ?thesis
    by (simp add: warn_and_kick_def live_def player_of_def command_of_def fresh_world_def)
qed

subsection \<open>Moderators are rebuilt for every pass\<close>

lemma callback_in_pass:
  assumes "list_all (pass_event m mods) evs" and "PlayerPunishFailedCall (k, n) a \<in> set evs"
  shows "m = PUNISH \<and> (\<exists>x\<in>set mods. mod_kind x = k \<and> mod_gen x = n)"
proof -
  have "pass_event m mods (PlayerPunishFailedCall (k, n) a)"
    using assms by (simp add: list_all_iff)
  then show ?thesis by (auto simp: pass_event_def)
qed

lemma pass_event_not_config: "pass_event m mods e \<Longrightarrow> \<not> is_config_load e"
  by (cases e) (simp_all add: pass_event_def)

lemma config_in_pass:
  "list_all (pass_event m mods) evs \<Longrightarrow> filter is_config_load evs = []"
  by (auto simp: list_all_iff filter_empty_conv dest: pass_event_not_config)

lemma do_punitions_pass_events:
  assumes "do_punitions_pass env m ps mods w = (r, w')"
  obtains evs where "w' = w\<lparr>trace := trace w @ evs\<rparr>" "list_all (pass_event m mods) evs"
  using do_punitions_pass_grows [OF assms] by (auto simp: grows_def)

text \<open>
  C10. One call of \<open>do_punitions\<close> that returns reads the configuration three times and
  constructs the moderators three times, once before each pass. Whether it returns or
  not, every \<open>player_punish_failed\<close> callback it makes goes to an instance constructed by
  the second of these reads, one that this read found enabled: never to an instance that
  existed before the call, such as the one that proposed the punition. The three reads
  are independent, so the three lists may differ (the example below has three different
  ones).
\<close>

theorem do_punitions_rebuilds_moderators:
  assumes "do_punitions env p w = (r, w')"
  shows "(r = None \<longrightarrow>
            generation w' = generation w + 3 \<and>
            filter is_config_load (drop (length (trace w)) (trace w')) =
              [ConfigLoaded (generation w), ConfigLoaded (generation w + 1),
               ConfigLoaded (generation w + 2)]) \<and>
         (\<forall>k n a. PlayerPunishFailedCall (k, n) a \<in> set (drop (length (trace w)) (trace w')) \<longrightarrow>
            n = generation w + 1 \<and> enabled (construct env (generation w + 1) k))"
proof -
  let ?g = "generation w"
  from assms obtain s mods1 w1 r1 w2 mods2 w3 r2 w4 mods3 w5 r3 w6 where
    e1: "enabled_moderators env (emit (Log DEBUG s) w) = (mods1, w1)" and
    p1: "do_punitions_pass env MESSAGE (warning p) mods1 w1 = (r1, w2)" and
    e2: "enabled_moderators env w2 = (mods2, w3)" and
    p2: "do_punitions_pass env PUNISH (punish p) mods2 w3 = (r2, w4)" and
    e3: "enabled_moderators env w4 = (mods3, w5)" and
    p3: "do_punitions_pass env KICK (kick p) mods3 w5 = (r3, w6)" and
    res: "(r, w') = (case r1 of Some e \<Rightarrow> (r1, w2) | None \<Rightarrow>
                 (case r2 of Some e \<Rightarrow> (r2, w4) | None \<Rightarrow> (r3, w6)))"
    by (rule do_punitions_stages)
  from p1 obtain ev1 where ev1: "w2 = w1\<lparr>trace := trace w1 @ ev1\<rparr>"
      "list_all (pass_event MESSAGE mods1) ev1"
    by (rule do_punitions_pass_events)
  from p2 obtain ev2 where ev2: "w4 = w3\<lparr>trace := trace w3 @ ev2\<rparr>"
      "list_all (pass_event PUNISH mods2) ev2"
    by (rule do_punitions_pass_events)
  from p3 obtain ev3 where ev3: "w6 = w5\<lparr>trace := trace w5 @ ev3\<rparr>"
      "list_all (pass_event KICK mods3) ev3"
    by (rule do_punitions_pass_events)
  note w1 = enabled_moderators_world [OF e1]
  note w3 = enabled_moderators_world [OF e2]
  note w5 = enabled_moderators_world [OF e3]
  have g2: "generation w2 = ?g + 1" and
       t2: "trace w2 = trace w @ [Log DEBUG s, ConfigLoaded ?g] @ ev1"
    using w1 ev1(1) by simp_all
  have g4: "generation w4 = ?g + 2" and
       t4: "trace w4 = trace w @ [Log DEBUG s, ConfigLoaded ?g] @ ev1 @
              [ConfigLoaded (?g + 1)] @ ev2"
    using w3 ev2(1) g2 t2 by simp_all
  have g6: "generation w6 = ?g + 3" and
       t6: "trace w6 = trace w @ [Log DEBUG s, ConfigLoaded ?g] @ ev1 @
              [ConfigLoaded (?g + 1)] @ ev2 @ [ConfigLoaded (?g + 2)] @ ev3"
    using w5 ev3(1) g4 t4 by simp_all
  have mods2: "\<And>x. x \<in> set mods2 \<Longrightarrow>
      mod_gen x = ?g + 1 \<and> enabled (construct env (?g + 1) (mod_kind x))"
    using enabled_moderators_mods [OF e2] g2 by simp
  have cb: "n = ?g + 1 \<and> enabled (construct env (?g + 1) k)"
    if "PlayerPunishFailedCall (k, n) a \<in> set ev1 \<union> set ev2 \<union> set ev3" for k n a
  proof -
    from that callback_in_pass [OF ev1(2)] callback_in_pass [OF ev3(2)]
    have "PlayerPunishFailedCall (k, n) a \<in> set ev2" by blast
    from callback_in_pass [OF ev2(2) this] obtain x where
      "x \<in> set mods2" "mod_kind x = k" "mod_gen x = n" by blast
    with mods2 [of x] show ?thesis by auto
  qed
  note nc1 = config_in_pass [OF ev1(2)]
  note nc2 = config_in_pass [OF ev2(2)]
  note nc3 = config_in_pass [OF ev3(2)]
  show ?thesis
  proof (cases r1)
    case (Some x)
    with res have "r = Some x" "w' = w2" by simp_all
    with t2 cb show ?thesis by auto
  next
    case None
    note r1 = this
    show ?thesis
    proof (cases r2)
      case (Some x)
      with res r1 have "r = Some x" "w' = w4" by simp_all
      with t4 cb show ?thesis by auto
    next
      case None
      with res r1 have rr: "r = r3" "w' = w6" by simp_all
      have "filter is_config_load (drop (length (trace w)) (trace w6)) =
              [ConfigLoaded ?g, ConfigLoaded (?g + 1), ConfigLoaded (?g + 2)]"
        using t6 nc1 nc2 nc3 by simp
      with g6 rr have first: "r = None \<longrightarrow>
            generation w' = generation w + 3 \<and>
            filter is_config_load (drop (length (trace w)) (trace w')) =
              [ConfigLoaded (generation w), ConfigLoaded (generation w + 1),
               ConfigLoaded (generation w + 2)]"
        by blast
      have "\<forall>k n a. PlayerPunishFailedCall (k, n) a \<in>
            set (drop (length (trace w)) (trace w6)) \<longrightarrow>
            n = ?g + 1 \<and> enabled (construct env (?g + 1) k)"
        using t6 cb by auto
      with rr have second: "\<forall>k n a. PlayerPunishFailedCall (k, n) a \<in>
            set (drop (length (trace w)) (trace w')) \<longrightarrow>
            n = ?g + 1 \<and> enabled (construct env (?g + 1) k)"
        by blast
      from first second show ?thesis by (rule conjI)
    qed
  qed
qed

theorem do_punitions_rebuilds_moderators_witness:
  "map mod_kind (fst (enabled_moderators shifting_env (fresh_world\<lparr>generation := 0\<rparr>))) =
     [NoLeaderAutomod] \<and>
   map mod_kind (fst (enabled_moderators shifting_env (fresh_world\<lparr>generation := 1\<rparr>))) =
     [NoSoloTankAutomod] \<and>
   map mod_kind (fst (enabled_moderators shifting_env (fresh_world\<lparr>generation := 2\<rparr>))) = [] \<and>
   generation (snd (do_punitions shifting_env one_punish fresh_world)) = 3 \<and>
   trace (snd (do_punitions shifting_env one_punish fresh_world)) =
     [Log DEBUG ''Automod did not suggest any punitions'',
      ConfigLoaded 0, ConfigLoaded 1,
      RconPunish ''bob'' ''stop'' ''automod'',
      Log WARNING ''Couldn't `%s` player `%s`. Will retry.'',
      PlayerPunishFailedCall (NoSoloTankAutomod, 1) (player_of ''7'' ''bob'' ''stop'' False None),
      ConfigLoaded 2]"
proof -
  have run: "do_punitions shifting_env one_punish fresh_world =
    (None, fresh_world\<lparr>generation := 3, trace :=
     [Log DEBUG ''Automod did not suggest any punitions'',
      ConfigLoaded 0, ConfigLoaded 1,
      RconPunish ''bob'' ''stop'' ''automod'',
      Log WARNING ''Couldn't `%s` player `%s`. Will retry.'',
      PlayerPunishFailedCall (NoSoloTankAutomod, 1) (player_of ''7'' ''bob'' ''stop'' False None),
      ConfigLoaded 2]\<rparr>)"
    by (simp add: do_punitions_def enabled_moderators_def shifting_env_def rejecting_env_def
          quiet_env_def quiet_moderator_def one_punish_def player_of_def do_one_def
          try_block_def rcon_call_def fresh_world_def emit_def Let_def)
  have mods: "map mod_kind (fst (enabled_moderators shifting_env (fresh_world\<lparr>generation := 0\<rparr>))) =
     [NoLeaderAutomod] \<and>
   map mod_kind (fst (enabled_moderators shifting_env (fresh_world\<lparr>generation := 1\<rparr>))) =
     [NoSoloTankAutomod] \<and>
   map mod_kind (fst (enabled_moderators shifting_env (fresh_world\<lparr>generation := 2\<rparr>))) = []"
    by (simp add: enabled_moderators_def shifting_env_def rejecting_env_def
          quiet_env_def quiet_moderator_def fresh_world_def Let_def)
  from do_punitions_rebuilds_moderators [OF run] mods run show ?thesis
    by simp
qed

subsection \<open>Dry run\<close>

lemma do_one_dry_run:
  "dry_run (details a) \<Longrightarrow> do_one env m a mods w = (None, audited m a w)"
  by (cases m)
     (simp_all add: do_one_def try_block_dry_run audit_def audited_def audit_event_def
        emit_def split: option.splits)

lemma do_punitions_pass_append:
  "do_punitions_pass env m (xs @ ys) mods w =
     (case do_punitions_pass env m xs mods w of
        (Some e, w1) \<Rightarrow> (Some e, w1)
      | (None, w1) \<Rightarrow> do_punitions_pass env m ys mods w1)"
  by (induction xs arbitrary: w) (auto split: prod.splits option.splits)

lemma audited_trace:
  "discord_audit_url (details a) = Some u \<Longrightarrow>
   trace (audited m a w) = trace w @ [audit_event m a u]"
  by (simp add: audited_def)

lemma do_one_extends:
  "do_one env m a mods w = (r, w1) \<Longrightarrow> \<exists>evs. trace w1 = trace w @ evs"
  using do_one_grows [of env m a mods w r w1] by (auto simp: grows_def)

lemma do_punitions_pass_audits:
  "do_punitions_pass env m ps mods w = (None, w') \<Longrightarrow> a \<in> set ps \<Longrightarrow>
   dry_run (details a) \<Longrightarrow> discord_audit_url (details a) = Some u \<Longrightarrow>
   \<exists>evs. trace w' = trace w @ evs \<and> audit_event m a u \<in> set evs"
proof (induction ps arbitrary: w)
  case Nil
  then show ?case by simp
next
  case (Cons x ps)
  obtain r1 w1 where one: "do_one env m x mods w = (r1, w1)"
    by (cases "do_one env m x mods w")
  with Cons.prems(1) have r1: "r1 = None" and rest: "do_punitions_pass env m ps mods w1 = (None, w')"
    by (auto split: option.splits)
  from do_one_extends [OF one] obtain e1 where e1: "trace w1 = trace w @ e1" by blast
  from do_punitions_pass_grows [OF rest] obtain e2 where e2: "trace w' = trace w1 @ e2"
    by (auto simp: grows_def)
  show ?case
  proof (cases "a = x")
    case True
    with one Cons.prems(3) have "w1 = audited m a w"
      by (simp add: do_one_dry_run)
    with Cons.prems(4) have "trace w1 = trace w @ [audit_event m a u]"
      by (simp add: audited_trace)
    with e2 have "trace w' = trace w @ ([audit_event m a u] @ e2)" by simp
    moreover have "audit_event m a u \<in> set ([audit_event m a u] @ e2)" by simp
    ultimately show ?thesis by blast
  next
    case False
    with Cons.prems(2) have "a \<in> set ps" by simp
    from Cons.IH [OF rest this Cons.prems(3,4)] obtain evs where
      evs: "trace w' = trace w1 @ evs" "audit_event m a u \<in> set evs"
      by blast
    with e1 have "trace w' = trace w @ (e1 @ evs)" "audit_event m a u \<in> set (e1 @ evs)"
      by simp_all
    then show ?thesis by blast
  qed
qed

lemma do_punitions_pass_all_dry:
  "\<forall>x\<in>set ps. dry_run (details x) \<Longrightarrow> fst (do_punitions_pass env m ps mods w) = None"
  by (induction ps arbitrary: w) (simp_all add: do_one_dry_run)

lemma live_all_dry: "\<forall>x\<in>set ps. dry_run (details x) \<Longrightarrow> live ps = []"
  by (simp add: live_def filter_empty_conv)


lemma do_punitions_returned:
  assumes "do_punitions env p w = (None, w')"
  obtains s mods1 w1 w2 mods2 w3 w4 mods3 w5 where
    "enabled_moderators env (emit (Log DEBUG s) w) = (mods1, w1)"
    "do_punitions_pass env MESSAGE (warning p) mods1 w1 = (None, w2)"
    "enabled_moderators env w2 = (mods2, w3)"
    "do_punitions_pass env PUNISH (punish p) mods2 w3 = (None, w4)"
    "enabled_moderators env w4 = (mods3, w5)"
    "do_punitions_pass env KICK (kick p) mods3 w5 = (None, w')"
proof -
  from assms obtain s mods1 w1 r1 w2 mods2 w3 r2 w4 mods3 w5 r3 w6 where
    st: "enabled_moderators env (emit (Log DEBUG s) w) = (mods1, w1)"
    "do_punitions_pass env MESSAGE (warning p) mods1 w1 = (r1, w2)"
    "enabled_moderators env w2 = (mods2, w3)"
    "do_punitions_pass env PUNISH (punish p) mods2 w3 = (r2, w4)"
    "enabled_moderators env w4 = (mods3, w5)"
    "do_punitions_pass env KICK (kick p) mods3 w5 = (r3, w6)"
    "(None, w') = (case r1 of Some e \<Rightarrow> (r1, w2) | None \<Rightarrow>
                 (case r2 of Some e \<Rightarrow> (r2, w4) | None \<Rightarrow> (r3, w6)))"
    by (rule do_punitions_stages)
  from st(7) have "r1 = None" "r2 = None" "r3 = None" "w6 = w'"
    by (auto split: option.splits)
  with st(1-6) show ?thesis by (intro that) simp_all
qed

lemma do_punitions_audits:
  assumes run: "do_punitions env p w = (None, w')"
    and dry: "dry_run (details a)" and url: "discord_audit_url (details a) = Some u"
  shows "(a \<in> set (warning p) \<longrightarrow>
            audit_event MESSAGE a u \<in> set (drop (length (trace w)) (trace w'))) \<and>
         (a \<in> set (punish p) \<longrightarrow>
            audit_event PUNISH a u \<in> set (drop (length (trace w)) (trace w'))) \<and>
         (a \<in> set (kick p) \<longrightarrow>
            audit_event KICK a u \<in> set (drop (length (trace w)) (trace w')))"
proof -
  from run obtain s mods1 w1 w2 mods2 w3 w4 mods3 w5 where
    e1: "enabled_moderators env (emit (Log DEBUG s) w) = (mods1, w1)" and
    p1: "do_punitions_pass env MESSAGE (warning p) mods1 w1 = (None, w2)" and
    e2: "enabled_moderators env w2 = (mods2, w3)" and
    p2: "do_punitions_pass env PUNISH (punish p) mods2 w3 = (None, w4)" and
    e3: "enabled_moderators env w4 = (mods3, w5)" and
    p3: "do_punitions_pass env KICK (kick p) mods3 w5 = (None, w')"
    by (rule do_punitions_returned)
  from p1 obtain ev1 where ev1: "trace w2 = trace w1 @ ev1"
    by (rule do_punitions_pass_events) simp
  from p2 obtain ev2 where ev2: "trace w4 = trace w3 @ ev2"
    by (rule do_punitions_pass_events) simp
  from p3 obtain ev3 where ev3: "trace w' = trace w5 @ ev3"
    by (rule do_punitions_pass_events) simp
  have t1: "trace w1 = trace w @ [Log DEBUG s, ConfigLoaded (generation w)]"
    using enabled_moderators_world [OF e1] by simp
  have t3: "trace w3 = trace w2 @ [ConfigLoaded (generation w2)]"
    using enabled_moderators_world [OF e2] by simp
  have t5: "trace w5 = trace w4 @ [ConfigLoaded (generation w4)]"
    using enabled_moderators_world [OF e3] by simp
  have all: "trace w' = trace w @ [Log DEBUG s, ConfigLoaded (generation w)] @ ev1 @
      [ConfigLoaded (generation w2)] @ ev2 @ [ConfigLoaded (generation w4)] @ ev3"
    using t1 ev1 t3 ev2 t5 ev3 by simp
  have m: "audit_event MESSAGE a u \<in> set ev1" if "a \<in> set (warning p)"
    using do_punitions_pass_audits [OF p1 that dry url] ev1 by auto
  have q: "audit_event PUNISH a u \<in> set ev2" if "a \<in> set (punish p)"
    using do_punitions_pass_audits [OF p2 that dry url] ev2 by auto
  have k: "audit_event KICK a u \<in> set ev3" if "a \<in> set (kick p)"
    using do_punitions_pass_audits [OF p3 that dry url] ev3 by auto
  from m q k show ?thesis unfolding all by simp
qed

lemma do_punitions_commands:
  assumes "do_punitions env p w = (None, w')"
  shows "filter is_rcon (trace w') =
           filter is_rcon (trace w) @
           map (command_of MESSAGE) (live (warning p)) @
           map (command_of PUNISH) (live (punish p)) @
           map (command_of KICK) (live (kick p))"
proof -
  from assms obtain s mods1 w1 w2 mods2 w3 w4 mods3 w5 where
    e1: "enabled_moderators env (emit (Log DEBUG s) w) = (mods1, w1)" and
    p1: "do_punitions_pass env MESSAGE (warning p) mods1 w1 = (None, w2)" and
    e2: "enabled_moderators env w2 = (mods2, w3)" and
    p2: "do_punitions_pass env PUNISH (punish p) mods2 w3 = (None, w4)" and
    e3: "enabled_moderators env w4 = (mods3, w5)" and
    p3: "do_punitions_pass env KICK (kick p) mods3 w5 = (None, w')"
    by (rule do_punitions_returned)
  have "filter is_rcon (trace w1) = filter is_rcon (trace w)"
    using enabled_moderators_rcon [OF e1] by simp
  moreover have "filter is_rcon (trace w2) =
      filter is_rcon (trace w1) @ map (command_of MESSAGE) (live (warning p))"
    using do_punitions_pass_rcon [OF p1] by auto
  moreover note enabled_moderators_rcon [OF e2]
  moreover have "filter is_rcon (trace w4) =
      filter is_rcon (trace w3) @ map (command_of PUNISH) (live (punish p))"
    using do_punitions_pass_rcon [OF p2] by auto
  moreover note enabled_moderators_rcon [OF e3]
  moreover have "filter is_rcon (trace w') =
      filter is_rcon (trace w5) @ map (command_of KICK) (live (kick p))"
    using do_punitions_pass_rcon [OF p3] by auto
  ultimately show ?thesis by simp
qed

lemma do_punitions_all_dry:
  assumes "\<forall>x\<in>set (warning p @ punish p @ kick p). dry_run (details x)"
  shows "fst (do_punitions env p w) = None"
proof -
  have pass: "do_punitions_pass env m ps mods v =
      (None, snd (do_punitions_pass env m ps mods v))"
    if "set ps \<subseteq> set (warning p @ punish p @ kick p)" for m ps mods v
  proof -
    from that assms have "\<forall>x\<in>set ps. dry_run (details x)" by blast
    then have "fst (do_punitions_pass env m ps mods v) = None"
      by (rule do_punitions_pass_all_dry)
    then show ?thesis by (simp add: prod_eq_iff)
  qed
  obtain r w' where run: "do_punitions env p w = (r, w')"
    by (cases "do_punitions env p w")
  then obtain s mods1 w1 r1 w2 mods2 w3 r2 w4 mods3 w5 r3 w6 where
    st: "enabled_moderators env (emit (Log DEBUG s) w) = (mods1, w1)"
    "do_punitions_pass env MESSAGE (warning p) mods1 w1 = (r1, w2)"
    "enabled_moderators env w2 = (mods2, w3)"
    "do_punitions_pass env PUNISH (punish p) mods2 w3 = (r2, w4)"
    "enabled_moderators env w4 = (mods3, w5)"
    "do_punitions_pass env KICK (kick p) mods3 w5 = (r3, w6)"
    "(r, w') = (case r1 of Some e \<Rightarrow> (r1, w2) | None \<Rightarrow>
                 (case r2 of Some e \<Rightarrow> (r2, w4) | None \<Rightarrow> (r3, w6)))"
    by (rule do_punitions_stages)
  have "r1 = None" using st(2) pass [of "warning p" MESSAGE mods1 w1] by auto
  moreover have "r2 = None" using st(4) pass [of "punish p" PUNISH mods2 w3] by auto
  moreover have "r3 = None" using st(6) pass [of "kick p" KICK mods3 w5] by auto
  ultimately have "r = None" using st(7) by simp
  with run show ?thesis by simp
qed

text \<open>
  C6. An action whose dry-run flag is set. In any of the three passes and in any state,
  the turn of the executor's loop for it sends nothing to the command channel and does
  not raise: its one effect is the audit call, when the action has an audit target, and
  it has no effect at all when it has none. A pass that reaches the action goes on with
  the rest of its collection from the world after that audit step. A call of
  \<open>do_punitions\<close> that returns has sent exactly the commands of the entries that are
  not dry runs, and its trace has the audit call of every dry-run entry that has an audit
  target. On an aggregate of dry-run entries only, \<open>do_punitions\<close> always returns and
  sends no command.
\<close>

theorem dry_run_audited_not_sent:
  assumes "dry_run (details aplayer)"
  shows "do_one env method aplayer mods w = (None, audited method aplayer w) \<and>
    (\<forall>before w1. do_punitions_pass env method before mods w = (None, w1) \<longrightarrow>
        do_punitions_pass env method (before @ aplayer # rest) mods w =
        do_punitions_pass env method rest mods (audited method aplayer w1)) \<and>
    (\<forall>p w'. do_punitions env p w = (None, w') \<longrightarrow>
        filter is_rcon (trace w') =
          filter is_rcon (trace w) @
          map (command_of MESSAGE) (live (warning p)) @
          map (command_of PUNISH) (live (punish p)) @
          map (command_of KICK) (live (kick p)) \<and>
        (\<forall>url. discord_audit_url (details aplayer) = Some url \<longrightarrow>
           (aplayer \<in> set (warning p) \<longrightarrow>
              audit_event MESSAGE aplayer url \<in> set (drop (length (trace w)) (trace w'))) \<and>
           (aplayer \<in> set (punish p) \<longrightarrow>
              audit_event PUNISH aplayer url \<in> set (drop (length (trace w)) (trace w'))) \<and>
           (aplayer \<in> set (kick p) \<longrightarrow>
              audit_event KICK aplayer url \<in> set (drop (length (trace w)) (trace w'))))) \<and>
    (\<forall>p. (\<forall>x\<in>set (warning p @ punish p @ kick p). dry_run (details x)) \<longrightarrow>
        fst (do_punitions env p w) = None \<and>
        filter is_rcon (trace (snd (do_punitions env p w))) = filter is_rcon (trace w))"
proof (intro conjI allI impI)
  show "do_one env method aplayer mods w = (None, audited method aplayer w)"
    using assms by (rule do_one_dry_run)
next
  fix before w1
  assume "do_punitions_pass env method before mods w = (None, w1)"
  then show "do_punitions_pass env method (before @ aplayer # rest) mods w =
        do_punitions_pass env method rest mods (audited method aplayer w1)"
    using assms by (simp add: do_punitions_pass_append do_one_dry_run)
next
  fix p w'
  assume "do_punitions env p w = (None, w')"
  then show "filter is_rcon (trace w') =
          filter is_rcon (trace w) @
          map (command_of MESSAGE) (live (warning p)) @
          map (command_of PUNISH) (live (punish p)) @
          map (command_of KICK) (live (kick p))"
    by (rule do_punitions_commands)
next
  fix p w' url
  assume run: "do_punitions env p w = (None, w')"
    and url: "discord_audit_url (details aplayer) = Some url"
  note au = do_punitions_audits [OF run assms url]
  {
    assume "aplayer \<in> set (warning p)"
    with au show "audit_event MESSAGE aplayer url \<in> set (drop (length (trace w)) (trace w'))"
      by blast
  }
  {
    assume "aplayer \<in> set (punish p)"
    with au show "audit_event PUNISH aplayer url \<in> set (drop (length (trace w)) (trace w'))"
      by blast
  }
  {
    assume "aplayer \<in> set (kick p)"
    with au show "audit_event KICK aplayer url \<in> set (drop (length (trace w)) (trace w'))"
      by blast
  }
next
  fix p :: PunitionsToApply
  assume dry: "\<forall>x\<in>set (warning p @ punish p @ kick p). dry_run (details x)"
  then show ret: "fst (do_punitions env p w) = None"
    by (rule do_punitions_all_dry)
  then have "do_punitions env p w = (None, snd (do_punitions env p w))"
    by (simp add: prod_eq_iff)
  from do_punitions_commands [OF this] dry
  show "filter is_rcon (trace (snd (do_punitions env p w))) = filter is_rcon (trace w)"
    by (simp add: live_all_dry)
qed

theorem dry_run_audited_not_sent_witness:
  "do_one quiet_env KICK (player_of ''7'' ''bob'' ''leave'' True (Some ''hook'')) [] fresh_world =
     (None, fresh_world\<lparr>trace :=
        [SendToDiscordAudit ''---> KICKING <---: ''
           (player_of ''7'' ''bob'' ''leave'' True (Some ''hook'')) ''kick'' ''automod''
           [''hook''] False]\<rparr>) \<and>
   do_punitions quiet_env all_dry fresh_world =
     (None, fresh_world\<lparr>generation := 3, trace :=
        [Log DEBUG ''Automod did not suggest any punitions'',
         ConfigLoaded 0, ConfigLoaded 1,
         SendToDiscordAudit ''--> PUNISHING: ''
           (player_of ''7'' ''bob'' ''stop'' True (Some ''hook'')) ''punish'' ''automod''
           [''hook''] False,
         ConfigLoaded 2,
         SendToDiscordAudit ''---> KICKING <---: ''
           (player_of ''7'' ''bob'' ''leave'' True (Some ''hook'')) ''kick'' ''automod''
           [''hook''] False]\<rparr>) \<and>
   audit_event KICK (player_of ''7'' ''bob'' ''leave'' True (Some ''hook'')) ''hook'' \<in>
     set (trace (snd (do_punitions quiet_env all_dry fresh_world))) \<and>
   filter is_rcon (trace (snd (do_punitions quiet_env all_dry fresh_world))) = []"
proof -
  let ?a = "player_of ''7'' ''bob'' ''leave'' True (Some ''hook'')"
  have dry: "dry_run (details ?a)" by (simp add: player_of_def)
  note inst = dry_run_audited_not_sent [of ?a quiet_env KICK "[]" fresh_world "[]", OF dry]
  note turn = inst [THEN conjunct1]
  note step = inst [THEN conjunct2, THEN conjunct1]
  note exec = inst [THEN conjunct2, THEN conjunct2, THEN conjunct1]
  note quiet = inst [THEN conjunct2, THEN conjunct2, THEN conjunct2]
  have one: "do_one quiet_env KICK ?a [] fresh_world =
     (None, fresh_world\<lparr>trace :=
        [SendToDiscordAudit ''---> KICKING <---: '' ?a ''kick'' ''automod'' [''hook''] False]\<rparr>)"
    unfolding turn
    by (simp add: audited_def audit_event_def player_of_def fresh_world_def)
  have pass: "do_punitions_pass quiet_env KICK [?a] [] fresh_world =
      (None, audited KICK ?a fresh_world)"
    using step [THEN spec, THEN spec, THEN mp, of "[]" fresh_world] by simp
  have all: "\<forall>x\<in>set (warning all_dry @ punish all_dry @ kick all_dry). dry_run (details x)"
    by (simp add: all_dry_def player_of_def)
  note q = quiet [THEN spec, THEN mp, OF all]
  have run: "do_punitions quiet_env all_dry fresh_world =
     (None, fresh_world\<lparr>generation := 3, trace :=
        [Log DEBUG ''Automod did not suggest any punitions'',
         ConfigLoaded 0, ConfigLoaded 1,
         SendToDiscordAudit ''--> PUNISHING: ''
           (player_of ''7'' ''bob'' ''stop'' True (Some ''hook'')) ''punish'' ''automod''
           [''hook''] False,
         ConfigLoaded 2,
         SendToDiscordAudit ''---> KICKING <---: '' ?a ''kick'' ''automod'' [''hook''] False]\<rparr>)"
    by (simp add: do_punitions_def enabled_moderators_def quiet_env_def quiet_moderator_def
          all_dry_def player_of_def do_one_def try_block_def audit_def fresh_world_def
          emit_def Let_def)
  have url: "discord_audit_url (details ?a) = Some ''hook''"
    by (simp add: player_of_def)
  have mem: "?a \<in> set (kick all_dry)"
    by (simp add: all_dry_def)
  from exec [THEN spec, THEN spec, THEN mp, OF run, THEN conjunct2, THEN spec, THEN mp, OF url,
      THEN conjunct2, THEN conjunct2, THEN mp, OF mem]
  have au: "audit_event KICK ?a ''hook'' \<in>
     set (trace (snd (do_punitions quiet_env all_dry fresh_world)))"
    unfolding run by (simp add: fresh_world_def)
  have nr: "filter is_rcon (trace (snd (do_punitions quiet_env all_dry fresh_world))) = []"
    using q by (simp add: fresh_world_def)
  from one run au nr pass show ?thesis by (intro conjI)
qed

subsection \<open>The connect hook\<close>

lemma on_connected_loop_actions:
  "on_connected_loop ms nm pid d acc w = (r, w') \<Longrightarrow>
   filter is_action (trace w') = filter is_action (trace w)"
proof (induction ms arbitrary: acc w)
  case Nil
  then show ?case by simp
next
  case (Cons m ms)
  show ?case
  proof (cases "on_connected_hook m")
    case None
    with Cons show ?thesis by simp
  next
    case (Some hook)
    let ?w1 = "emit (OnConnectedCall (mod_kind m, mod_gen m) nm pid d) w"
    have w1: "filter is_action (trace ?w1) = filter is_action (trace w)"
      by (simp add: is_action_def)
    show ?thesis
    proof (cases "hook (trace w) nm pid d")
      case (Inl e)
      with Cons.prems Some w1 show ?thesis by (auto simp: Let_def)
    next
      case (Inr q)
      with Cons.prems Some have
        "on_connected_loop ms nm pid d (merge acc q) ?w1 = (r, w')"
        by (simp add: Let_def)
      from Cons.IH [OF this] w1 show ?thesis by simp
    qed
  qed
qed

lemma on_connected_merged_actions:
  assumes "on_connected_merged env nm pid mods w1 = (r, w4)"
  shows "filter is_action (trace w4) = filter is_action (trace w1)"
proof (cases "detailed_player_reply env (trace w1) nm")
  case (Inl e)
  with assms have "on_connected_loop mods nm pid None empty_punitions
      (emit (Log ERROR ''get_detailed_player_info threw an exception for {name}: {e}'')
         (emit (RconGetDetailedPlayerInfo nm) w1)) = (r, w4)"
    by (simp add: on_connected_merged_def)
  from on_connected_loop_actions [OF this] show ?thesis by (simp add: is_action_def)
next
  case (Inr d)
  with assms have "on_connected_loop mods nm pid (Some d) empty_punitions
      (emit (RconGetDetailedPlayerInfo nm) w1) = (r, w4)"
    by (simp add: on_connected_merged_def)
  from on_connected_loop_actions [OF this] show ?thesis by (simp add: is_action_def)
qed

lemma notify_loop_trace:
  "notify_loop env ps w = (r, w') \<Longrightarrow>
   \<exists>k\<le>length ps. w' = w\<lparr>trace := trace w @ map notify_command (take k ps)\<rparr> \<and>
                  (r = None \<longrightarrow> k = length ps)"
proof (induction ps arbitrary: w)
  case Nil
  then show ?case by simp
next
  case (Cons p ps)
  let ?w1 = "emit (notify_command p) w"
  show ?case
  proof (cases "rcon_reply env (trace w) (notify_command p)")
    case (Some e)
    with Cons.prems have "r = Some e" "w' = ?w1"
      by (simp_all add: rcon_call_def notify_command_def)
    then have "w' = w\<lparr>trace := trace w @ map notify_command (take 1 (p # ps))\<rparr> \<and>
               (r = None \<longrightarrow> 1 = length (p # ps))"
      by (simp add: emit_def)
    moreover have "1 \<le> length (p # ps)" by simp
    ultimately show ?thesis by blast
  next
    case None
    with Cons.prems have "notify_loop env ps ?w1 = (r, w')"
      by (simp add: rcon_call_def notify_command_def)
    from Cons.IH [OF this] obtain k where k: "k \<le> length ps"
        "w' = ?w1\<lparr>trace := trace ?w1 @ map notify_command (take k ps)\<rparr>"
        "r = None \<longrightarrow> k = length ps"
      by blast
    have "w' = w\<lparr>trace := trace w @ map notify_command (take (Suc k) (p # ps))\<rparr> \<and>
          (r = None \<longrightarrow> Suc k = length (p # ps))"
      using k(2,3) by (simp add: emit_def)
    moreover have "Suc k \<le> length (p # ps)" using k(1) by simp
    ultimately show ?thesis by blast
  qed
qed

lemma notify_player_trace:
  "\<exists>k els. k \<le> length (warning punitions) \<and>
     (els = [] \<and> k = length (warning punitions) \<or>
      els = [Log ERROR ''Could not message player '%s' (%s) : %s'']) \<and>
     notify_player env nm pid punitions v =
       v\<lparr>trace := trace v @ map notify_command (take k (warning punitions)) @ els\<rparr>"
proof (cases "notify_loop env (warning punitions) v")
  case (Pair r v')
  from notify_loop_trace [OF Pair] obtain k where k: "k \<le> length (warning punitions)"
      "v' = v\<lparr>trace := trace v @ map notify_command (take k (warning punitions))\<rparr>"
      "r = None \<longrightarrow> k = length (warning punitions)"
    by blast
  show ?thesis
  proof (cases r)
    case None
    with Pair k have "notify_player env nm pid punitions v =
       v\<lparr>trace := trace v @ map notify_command (take k (warning punitions)) @ []\<rparr>"
      "k = length (warning punitions)"
      by (simp_all add: notify_player_def)
    with k(1) show ?thesis by blast
  next
    case (Some e)
    with Pair k have "notify_player env nm pid punitions v =
       v\<lparr>trace := trace v @ map notify_command (take k (warning punitions)) @
            [Log ERROR ''Could not message player '%s' (%s) : %s'']\<rparr>"
      by (simp add: notify_player_def emit_def)
    with k(1) show ?thesis by blast
  qed
qed

lemma timer_fire_trace:
  assumes "t < length (timers v)"
    and "timers v ! t = \<lparr>interval = i, t_name = nm, t_player_id = pid,
                          t_punitions = punitions, status = Started\<rparr>"
  shows "\<exists>k els. k \<le> length (warning punitions) \<and>
     (els = [] \<and> k = length (warning punitions) \<or>
      els = [Log ERROR ''Could not message player '%s' (%s) : %s'']) \<and>
     trace (timer_fire env t v) =
       trace v @ map notify_command (take k (warning punitions)) @ els"
proof -
  from notify_player_trace [of punitions env nm pid v] obtain k els where
    k: "k \<le> length (warning punitions)"
      "els = [] \<and> k = length (warning punitions) \<or>
       els = [Log ERROR ''Could not message player '%s' (%s) : %s'']"
      "notify_player env nm pid punitions v =
        v\<lparr>trace := trace v @ map notify_command (take k (warning punitions)) @ els\<rparr>"
    by blast
  have "trace (timer_fire env t v) = trace (notify_player env nm pid punitions v)"
    using assms by (simp add: timer_fire_def Let_def)
  with k(3) have "trace (timer_fire env t v) =
       trace v @ map notify_command (take k (warning punitions)) @ els"
    by simp
  with k(1,2) show ?thesis by blast
qed

text \<open>
  C1, amended. A connect event that passes both guards and whose moderators return:
  when the merged aggregate has at least one warning, the hook starts one timer of 20
  time units that holds the aggregate, stores it under the player identifier, and
  returns; when it has none, the hook returns at once. In both cases the hook itself
  sends no message, punish or kick, makes no audit call and no failure callback. When
  that timer fires, in whatever world it is still started, what is added to the trace is
  the messages of the warnings of the aggregate, in order, up to and including the first
  one whose delivery raises, and then the error line if one did raise: all the warnings
  when none raises, and never a punish, a kick or an audit. So the punish and kick
  entries of a connect aggregate are applied neither by the hook nor by the timer.
\<close>

theorem on_connected_only_defers_warnings:
  assumes "redis w first_run_done_key \<noteq> None"
    and "enabled_moderators env (emit (RedisExists first_run_done_key) w) = (mods, w1)"
    and "mods \<noteq> []"
    and "on_connected_merged env nm pid mods w1 = (Inr punitions, w4)"
  shows "on_connected env nm pid w =
           (None,
            if warning punitions = [] then w4
            else w4\<lparr>timers := timers w4 @
                      [\<lparr>interval = 20, t_name = nm, t_player_id = pid,
                        t_punitions = punitions, status = Started\<rparr>],
                    pendingTimers := (pendingTimers w4)(pid \<mapsto> length (timers w4)),
                    trace := trace w4 @ [TimerStarted (length (timers w4))]\<rparr>) \<and>
         filter is_action (trace (snd (on_connected env nm pid w))) =
           filter is_action (trace w) \<and>
         (\<forall>v. length (timers w4) < length (timers v) \<and>
              timers v ! length (timers w4) =
                \<lparr>interval = 20, t_name = nm, t_player_id = pid,
                 t_punitions = punitions, status = Started\<rparr> \<longrightarrow>
              (\<exists>k els. k \<le> length (warning punitions) \<and>
                 (els = [] \<and> k = length (warning punitions) \<or>
                  els = [Log ERROR ''Could not message player '%s' (%s) : %s'']) \<and>
                 trace (timer_fire env (length (timers w4)) v) =
                   trace v @ map notify_command (take k (warning punitions)) @ els))"
proof -
  have run: "on_connected env nm pid w =
           (None,
            if warning punitions = [] then w4
            else w4\<lparr>timers := timers w4 @
                      [\<lparr>interval = 20, t_name = nm, t_player_id = pid,
                        t_punitions = punitions, status = Started\<rparr>],
                    pendingTimers := (pendingTimers w4)(pid \<mapsto> length (timers w4)),
                    trace := trace w4 @ [TimerStarted (length (timers w4))]\<rparr>)"
    using assms
    by (simp add: on_connected_def is_first_run_done_def start_timer_def emit_def Let_def)
  have "filter is_action (trace w4) = filter is_action (trace w1)"
    using assms(4) by (rule on_connected_merged_actions)
  moreover have "filter is_action (trace w1) = filter is_action (trace w)"
    using enabled_moderators_world [OF assms(2)] by (simp add: is_action_def)
  ultimately have quiet: "filter is_action (trace (snd (on_connected env nm pid w))) =
           filter is_action (trace w)"
    unfolding run by (simp add: is_action_def)
  have fire: "\<forall>v. length (timers w4) < length (timers v) \<and>
              timers v ! length (timers w4) =
                \<lparr>interval = 20, t_name = nm, t_player_id = pid,
                 t_punitions = punitions, status = Started\<rparr> \<longrightarrow>
              (\<exists>k els. k \<le> length (warning punitions) \<and>
                 (els = [] \<and> k = length (warning punitions) \<or>
                  els = [Log ERROR ''Could not message player '%s' (%s) : %s'']) \<and>
                 trace (timer_fire env (length (timers w4)) v) =
                   trace v @ map notify_command (take k (warning punitions)) @ els)"
    by (intro allI impI, elim conjE) (rule timer_fire_trace)
  from run quiet fire show ?thesis by (intro conjI)
qed

text \<open>
  C1, as stated, fails. A connect event for which the one enabled moderator returns a
  warning and a kick for the connecting player: the merged aggregate has both, the hook
  starts the timer for it and returns, and no kick command (nor any other command of the
  executor) is in the trace. The function has no call of \<open>do_punitions\<close>.
\<close>

theorem on_connected_drops_kick_counterexample:
  "on_connected_merged strict_env ''bob'' ''7''
      (fst (enabled_moderators strict_env (emit (RedisExists first_run_done_key) warmed_world)))
      (snd (enabled_moderators strict_env (emit (RedisExists first_run_done_key) warmed_world))) =
     (Inr warn_and_kick,
      warmed_world\<lparr>generation := 1, trace :=
        [RedisExists first_run_done_key, ConfigLoaded 0, RconGetDetailedPlayerInfo ''bob'',
         OnConnectedCall (LevelThresholdsAutomod, 0) ''bob'' ''7'' (Some [])]\<rparr>) \<and>
   kick warn_and_kick = [player_of ''7'' ''bob'' ''leave'' False None] \<and>
   trace (snd (on_connected strict_env ''bob'' ''7'' warmed_world)) =
     [RedisExists first_run_done_key, ConfigLoaded 0, RconGetDetailedPlayerInfo ''bob'',
      OnConnectedCall (LevelThresholdsAutomod, 0) ''bob'' ''7'' (Some []), TimerStarted 0]"
  by (simp add: on_connected_def on_connected_merged_def is_first_run_done_def
        enabled_moderators_def strict_env_def strict_greeter_def quiet_env_def
        quiet_moderator_def warmed_world_def fresh_world_def first_run_done_key_def
        start_timer_def emit_def Let_def merge_def empty_punitions_def warn_and_kick_def)

theorem on_connected_only_defers_warnings_witness:
  "timers (snd (on_connected strict_env ''bob'' ''7'' warmed_world)) =
     [\<lparr>interval = 20, t_name = ''bob'', t_player_id = ''7'',
       t_punitions = warn_and_kick, status = Started\<rparr>] \<and>
   pendingTimers (snd (on_connected strict_env ''bob'' ''7'' warmed_world)) ''7'' = Some 0 \<and>
   filter is_action (trace (snd (on_connected strict_env ''bob'' ''7'' warmed_world))) = [] \<and>
   filter is_action
     (trace (timer_fire strict_env 0 (snd (on_connected strict_env ''bob'' ''7'' warmed_world)))) =
     [RconMessagePlayer None ''7'' ''careful'' ''automod'' (Some False)]"
proof -
  let ?w0 = "emit (RedisExists first_run_done_key) warmed_world"
  let ?w1 = "warmed_world\<lparr>generation := 1,
                trace := [RedisExists first_run_done_key, ConfigLoaded 0]\<rparr>"
  let ?w4 = "warmed_world\<lparr>generation := 1, trace :=
        [RedisExists first_run_done_key, ConfigLoaded 0, RconGetDetailedPlayerInfo ''bob'',
         OnConnectedCall (LevelThresholdsAutomod, 0) ''bob'' ''7'' (Some [])]\<rparr>"
  let ?mods = "[strict_greeter\<lparr>mod_kind := LevelThresholdsAutomod, mod_gen := 0\<rparr>]"
  let ?v = "snd (on_connected strict_env ''bob'' ''7'' warmed_world)"
  have a: "redis warmed_world first_run_done_key \<noteq> None"
    by (simp add: warmed_world_def)
  have b: "enabled_moderators strict_env ?w0 = (?mods, ?w1)"
    by (simp add: enabled_moderators_def strict_env_def strict_greeter_def quiet_env_def
          quiet_moderator_def warmed_world_def fresh_world_def emit_def Let_def)
  have c: "?mods \<noteq> []" by simp
  have d: "on_connected_merged strict_env ''bob'' ''7'' ?mods ?w1 = (Inr warn_and_kick, ?w4)"
    by (simp add: on_connected_merged_def strict_env_def strict_greeter_def quiet_env_def
          quiet_moderator_def warmed_world_def fresh_world_def emit_def Let_def merge_def
          empty_punitions_def warn_and_kick_def)
  note inst = on_connected_only_defers_warnings [OF a b c d]
  note run = inst [THEN conjunct1]
  note quiet = inst [THEN conjunct2, THEN conjunct1]
  note fire = inst [THEN conjunct2, THEN conjunct2]
  have v: "?v = ?w4\<lparr>timers := timers ?w4 @
                      [\<lparr>interval = 20, t_name = ''bob'', t_player_id = ''7'',
                        t_punitions = warn_and_kick, status = Started\<rparr>],
                    pendingTimers := (pendingTimers ?w4)(''7'' \<mapsto> length (timers ?w4)),
                    trace := trace ?w4 @ [TimerStarted (length (timers ?w4))]\<rparr>"
    unfolding run by (simp add: warn_and_kick_def)
  have t0: "length (timers ?w4) = 0"
    by (simp add: warmed_world_def fresh_world_def)
  have hook1: "timers ?v = [\<lparr>interval = 20, t_name = ''bob'', t_player_id = ''7'',
       t_punitions = warn_and_kick, status = Started\<rparr>]"
    unfolding v by (simp add: warmed_world_def fresh_world_def)
  have hook2: "pendingTimers ?v ''7'' = Some 0"
    unfolding v by (simp add: warmed_world_def fresh_world_def)
  have hook3: "filter is_action (trace ?v) = []"
    using quiet by (simp add: warmed_world_def fresh_world_def)
  have prem: "length (timers ?w4) < length (timers ?v) \<and>
              timers ?v ! length (timers ?w4) =
                \<lparr>interval = 20, t_name = ''bob'', t_player_id = ''7'',
                 t_punitions = warn_and_kick, status = Started\<rparr>"
    unfolding hook1 t0 by simp
  note fired = fire [THEN spec, THEN mp, OF prem]
  have sent: "trace (timer_fire strict_env 0 ?v) =
      trace ?v @ [RconMessagePlayer None ''7'' ''careful'' ''automod'' (Some False)]"
    unfolding timer_fire_def hook1
    by (simp add: notify_player_def rcon_call_def strict_env_def quiet_env_def
          warn_and_kick_def player_of_def Let_def)
  have "filter is_action (trace (timer_fire strict_env 0 ?v)) =
      [RconMessagePlayer None ''7'' ''careful'' ''automod'' (Some False)]"
    unfolding sent using hook3 by (simp add: is_action_def)
  with hook1 hook2 hook3 fired show ?thesis by (intro conjI)
qed

subsection \<open>The deferred notifier\<close>

lemma notify_loop_append:
  "notify_loop env (ps @ qs) w =
     (case notify_loop env ps w of
        (Some e, w1) \<Rightarrow> (Some e, w1)
      | (None, w1) \<Rightarrow> notify_loop env qs w1)"
  by (induction ps arbitrary: w) (auto split: prod.splits option.splits)

text \<open>
  C4, amended. When the deferred notification fires and the delivery of one message
  raises (any exception), after the messages before it were delivered: the failure is
  caught and logged, once, and the notification ends there without raising. The
  messages queued after the failing one are not attempted: the failure is recovered for
  the batch, not per message.
\<close>

theorem notify_player_stops_at_first_failure:
  assumes "notify_loop env ps w = (None, w1)"
    and "rcon_reply env (trace w1)
           (RconMessagePlayer None (player_id p) (message (details p))
              (author (details p)) (Some False)) = Some e"
  shows "notify_player env nm pid \<lparr>warning = ps @ p # qs, punish = pu, kick = ki\<rparr> w =
         w1\<lparr>trace := trace w1 @
              [RconMessagePlayer None (player_id p) (message (details p))
                 (author (details p)) (Some False),
               Log ERROR ''Could not message player '%s' (%s) : %s'']\<rparr>"
  using assms
  by (simp add: notify_player_def notify_loop_append rcon_call_def emit_def)

text \<open>
  C4, as stated, fails. Two queued warnings, the delivery of the first raising: the
  failure is caught and logged, and the second message is never sent, because the
  \<open>try\<close> statement encloses the whole loop.
\<close>

theorem notify_player_skips_rest_counterexample:
  "trace (notify_player flaky_env ''bob'' ''7'' two_warnings fresh_world) =
     [RconMessagePlayer None ''7'' ''first'' ''automod'' (Some False),
      Log ERROR ''Could not message player '%s' (%s) : %s'']"
  by (simp add: notify_player_def two_warnings_def player_of_def rcon_call_def flaky_env_def
        quiet_env_def fresh_world_def emit_def)

theorem notify_player_stops_at_first_failure_witness:
  "notify_player flaky_env ''bob'' ''7''
     \<lparr>warning = [player_of ''7'' ''bob'' ''hello'' False None,
                 player_of ''7'' ''bob'' ''first'' False None,
                 player_of ''7'' ''bob'' ''second'' False None],
      punish = [], kick = []\<rparr> fresh_world =
   fresh_world\<lparr>trace :=
     [RconMessagePlayer None ''7'' ''hello'' ''automod'' (Some False),
      RconMessagePlayer None ''7'' ''first'' ''automod'' (Some False),
      Log ERROR ''Could not message player '%s' (%s) : %s'']\<rparr>"
proof -
  let ?w1 = "fresh_world\<lparr>trace :=
     [RconMessagePlayer None ''7'' ''hello'' ''automod'' (Some False)]\<rparr>"
  have a: "notify_loop flaky_env [player_of ''7'' ''bob'' ''hello'' False None] fresh_world =
      (None, ?w1)"
    by (simp add: player_of_def rcon_call_def flaky_env_def quiet_env_def fresh_world_def
          emit_def)
  have b: "rcon_reply flaky_env (trace ?w1)
           (RconMessagePlayer None (player_id (player_of ''7'' ''bob'' ''first'' False None))
              (message (details (player_of ''7'' ''bob'' ''first'' False None)))
              (author (details (player_of ''7'' ''bob'' ''first'' False None))) (Some False)) =
         Some OtherException"
    by (simp add: player_of_def flaky_env_def quiet_env_def)
  from notify_player_stops_at_first_failure [OF a b,
      of "''bob''" "''7''" "[player_of ''7'' ''bob'' ''second'' False None]" "[]" "[]"]
  show ?thesis
    by (simp add: player_of_def fresh_world_def)
qed

subsection \<open>Two connects of one player\<close>

lemma connected_once_eq:
  "connected_once =
     warmed_world\<lparr>generation := 1,
       trace := [RedisExists first_run_done_key, ConfigLoaded 0,
                 RconGetDetailedPlayerInfo ''bob'',
                 OnConnectedCall (SeedingRulesAutomod, 0) ''bob'' ''7'' (Some [])] @
                [TimerStarted 0],
       timers := [\<lparr>interval = 20, t_name = ''bob'', t_player_id = ''7'',
                   t_punitions = \<lparr>warning = [player_of ''7'' ''bob'' ''welcome'' False None],
                                  punish = [], kick = []\<rparr>,
                   status = Started\<rparr>],
       pendingTimers := [''7'' \<mapsto> 0]\<rparr>"
  by (simp add: connected_once_def on_connected_def on_connected_merged_def
        is_first_run_done_def enabled_moderators_def greeting_env_def greeter_def quiet_env_def
        quiet_moderator_def warmed_world_def fresh_world_def first_run_done_key_def
        start_timer_def emit_def Let_def merge_def empty_punitions_def)

lemma connected_twice_eq:
  "connected_twice =
     warmed_world\<lparr>generation := 2,
       trace := [RedisExists first_run_done_key, ConfigLoaded 0,
                 RconGetDetailedPlayerInfo ''bob'',
                 OnConnectedCall (SeedingRulesAutomod, 0) ''bob'' ''7'' (Some []),
                 TimerStarted 0,
                 RedisExists first_run_done_key, ConfigLoaded 1,
                 RconGetDetailedPlayerInfo ''bob'',
                 OnConnectedCall (SeedingRulesAutomod, 1) ''bob'' ''7'' (Some []),
                 TimerStarted 1],
       timers := [\<lparr>interval = 20, t_name = ''bob'', t_player_id = ''7'',
                   t_punitions = \<lparr>warning = [player_of ''7'' ''bob'' ''welcome'' False None],
                                  punish = [], kick = []\<rparr>,
                   status = Started\<rparr>,
                  \<lparr>interval = 20, t_name = ''bob'', t_player_id = ''7'',
                   t_punitions = \<lparr>warning = [player_of ''7'' ''bob'' ''welcome back'' False None],
                                  punish = [], kick = []\<rparr>,
                   status = Started\<rparr>],
       pendingTimers := [''7'' \<mapsto> 1]\<rparr>"
  unfolding connected_twice_def connected_once_eq
  by (simp add: on_connected_def on_connected_merged_def
        is_first_run_done_def enabled_moderators_def greeting_env_def greeter_def quiet_env_def
        quiet_moderator_def warmed_world_def fresh_world_def first_run_done_key_def
        start_timer_def emit_def Let_def merge_def empty_punitions_def)

lemma start_timer_keeps_timers:
  "i < length (timers w) \<Longrightarrow> timers (start_timer nm pid p w) ! i = timers w ! i"
  by (simp add: start_timer_def Let_def nth_append)

text \<open>
  C2 does not hold of the code. A player connects twice before the first timer fires.
  The second scheduling overwrites the entry of \<open>pendingTimers\<close> for the player, but the
  first timer is still started: nothing ever calls \<open>cancel()\<close>. Both timers fire, and the
  player gets two deliveries, the first scheduling's warning and then the second's.
\<close>

theorem superseded_timer_still_delivers:
  "pendingTimers connected_twice ''7'' = Some 1 \<and>
   map status (timers connected_twice) = [Started, Started] \<and>
   filter is_rcon
     (trace (timer_fire greeting_env 1 (timer_fire greeting_env 0 connected_twice))) =
     [RconGetDetailedPlayerInfo ''bob'', RconGetDetailedPlayerInfo ''bob'',
      RconMessagePlayer None ''7'' ''welcome'' ''automod'' (Some False),
      RconMessagePlayer None ''7'' ''welcome back'' ''automod'' (Some False)]"
  unfolding connected_twice_eq
  by (simp add: timer_fire_def notify_player_def rcon_call_def greeting_env_def quiet_env_def
        player_of_def warmed_world_def fresh_world_def emit_def Let_def)

subsection \<open>Absent team, absent commander\<close>

lemma eval_mods_grows:
  "eval_mods ms tv sn team sq gs acc w = (r, w') \<Longrightarrow>
   grows (\<lambda>e. \<exists>i. e = PunitionsToApplyCall i sn team sq) w w'"
proof (induction ms arbitrary: acc w)
  case Nil
  then show ?case by (simp add: grows_refl)
next
  case (Cons m ms)
  let ?w1 = "emit (PunitionsToApplyCall (mod_kind m, mod_gen m) sn team sq) w"
  have g1: "grows (\<lambda>e. \<exists>i. e = PunitionsToApplyCall i sn team sq) w ?w1"
    by (rule grows_emit) blast
  show ?case
  proof (cases "punitions_to_apply m (trace w) tv sn team sq gs")
    case (Inl e)
    with Cons.prems g1 show ?thesis by (auto simp: Let_def)
  next
    case (Inr q)
    with Cons.prems have "eval_mods ms tv sn team sq gs (merge acc q) ?w1 = (r, w')"
      by (simp add: Let_def)
    from g1 Cons.IH [OF this] show ?thesis by (rule grows_trans)
  qed
qed

lemma eval_squads_grows:
  "eval_squads sqs mods tv team gs acc w = (r, w') \<Longrightarrow>
   grows (\<lambda>e. \<exists>i sn sq. e = PunitionsToApplyCall i sn team sq \<and> (sn, sq) \<in> set sqs) w w'"
proof (induction sqs arbitrary: acc w)
  case Nil
  then show ?case by (simp add: grows_refl)
next
  case (Cons x sqs)
  obtain sn sq where x: "x = (sn, sq)" by (cases x)
  obtain r1 w1 where one: "eval_mods mods tv sn team sq gs acc w = (r1, w1)"
    by (cases "eval_mods mods tv sn team sq gs acc w")
  let ?P = "\<lambda>e. \<exists>i sn sq. e = PunitionsToApplyCall i sn team sq \<and> (sn, sq) \<in> set (x # sqs)"
  have g1: "grows ?P w w1"
    using eval_mods_grows [OF one] by (rule grows_mono) (auto simp: x)
  show ?case
  proof (cases r1)
    case (Inl e)
    with Cons.prems one x g1 show ?thesis by simp
  next
    case (Inr acc1)
    with Cons.prems one x have "eval_squads sqs mods tv team gs acc1 w1 = (r, w')"
      by simp
    from Cons.IH [OF this] have "grows ?P w1 w'"
      by (rule grows_mono) auto
    with g1 show ?thesis by (rule grows_trans)
  qed
qed

lemma eval_team_grows:
  assumes "eval_team mods tv team gs acc w = (r, w')"
  shows "grows (engine_call_ok tv) w w'"
proof (cases "tv team")
  case None
  with assms show ?thesis by (simp add: eval_team_def grows_refl)
next
  case (Some entry)
  have sq_ok: "grows (engine_call_ok tv) v v'"
    if "eval_squads (squads entry) mods tv team gs a v = (r, v')" for a v v' r
    using eval_squads_grows [OF that]
    by (rule grows_mono) (auto simp: engine_call_ok_def Some)
  show ?thesis
  proof (cases "commander entry")
    case None
    with assms Some have "eval_squads (squads entry) mods tv team gs acc w = (r, w')"
      by (simp add: eval_team_def)
    then show ?thesis by (rule sq_ok)
  next
    case (Some c)
    note cmd = this
    obtain r1 w1 where one:
      "eval_mods mods tv ''Commander'' team \<lparr>players = [c], extras = []\<rparr> gs acc w = (r1, w1)"
      by (cases "eval_mods mods tv ''Commander'' team \<lparr>players = [c], extras = []\<rparr> gs acc w")
    have g1: "grows (engine_call_ok tv) w w1"
      using eval_mods_grows [OF one]
      by (rule grows_mono) (auto simp: engine_call_ok_def \<open>tv team = Some entry\<close> cmd)
    show ?thesis
    proof (cases r1)
      case (Inl e)
      with assms \<open>tv team = Some entry\<close> cmd one g1 show ?thesis
        by (simp add: eval_team_def)
    next
      case (Inr acc1)
      with assms \<open>tv team = Some entry\<close> cmd one have
        "eval_squads (squads entry) mods tv team gs acc1 w1 = (r, w')"
        by (simp add: eval_team_def)
      then have "grows (engine_call_ok tv) w1 w'" by (rule sq_ok)
      with g1 show ?thesis by (rule grows_trans)
    qed
  qed
qed

lemma eval_teams_grows:
  "eval_teams teams mods tv gs acc w = (r, w') \<Longrightarrow> grows (engine_call_ok tv) w w'"
proof (induction teams arbitrary: acc w)
  case Nil
  then show ?case by (simp add: grows_refl)
next
  case (Cons team teams)
  obtain r1 w1 where one: "eval_team mods tv team gs acc w = (r1, w1)"
    by (cases "eval_team mods tv team gs acc w")
  note g1 = eval_team_grows [OF one]
  show ?case
  proof (cases r1)
    case (Inl e)
    with Cons.prems one g1 show ?thesis by simp
  next
    case (Inr acc1)
    with Cons.prems one have "eval_teams teams mods tv gs acc1 w1 = (r, w')" by simp
    from g1 Cons.IH [OF this] show ?thesis by (rule grows_trans)
  qed
qed

lemma get_punitions_to_apply_grows:
  assumes "team_view_reply env (trace w @ [Log DEBUG ''Getting team info'']) = Inr tv"
  shows "grows (engine_call_ok tv) w (snd (get_punitions_to_apply env mods w))"
proof -
  let ?w0 = "emit (Log DEBUG ''Getting team info'') w"
  let ?w1 = "emit RconGetTeamView ?w0"
  let ?w2 = "emit RconGetGamestate ?w1"
  have g1: "grows (engine_call_ok tv) w ?w1"
    by (intro grows_then_emit grows_emit) (simp_all add: engine_call_ok_def)
  then have g2: "grows (engine_call_ok tv) w ?w2"
    by (rule grows_then_emit) (simp add: engine_call_ok_def)
  show ?thesis
  proof (cases "gamestate_reply env (trace ?w1)")
    case (Inl e)
    with assms g2 show ?thesis by (simp add: get_punitions_to_apply_def Let_def)
  next
    case (Inr gs)
    obtain r w' where run:
      "eval_teams [''allies'', ''axis''] mods tv gs empty_punitions ?w2 = (r, w')"
      by (cases "eval_teams [''allies'', ''axis''] mods tv gs empty_punitions ?w2")
    from g2 eval_teams_grows [OF run] have "grows (engine_call_ok tv) w w'"
      by (rule grows_trans)
    with assms Inr run show ?thesis by (simp add: get_punitions_to_apply_def Let_def)
  qed
qed

text \<open>
  C9. For a team that the team view does not have, the engine's turn for that team
  changes neither the aggregate nor the world and raises nothing: no moderator is called
  for it. For a team whose commander is \<open>None\<close>, the turn is the loop over the squads
  alone: no moderator is called for the commander role. And over a whole evaluation,
  every call of a moderator's \<open>punitions_to_apply\<close> is for a team that the team view
  has, and is either for one of its squads or, under the label Commander, for the
  commander it has.
\<close>

theorem absent_team_or_commander_skipped:
  "(tv team = None \<longrightarrow> eval_team mods tv team gamestate acc w = (Inr acc, w)) \<and>
   (\<forall>entry. tv team = Some entry \<and> commander entry = None \<longrightarrow>
      eval_team mods tv team gamestate acc w =
      eval_squads (squads entry) mods tv team gamestate acc w) \<and>
   (team_view_reply env (trace w @ [Log DEBUG ''Getting team info'']) = Inr tv \<longrightarrow>
      list_all (engine_call_ok tv)
        (drop (length (trace w)) (trace (snd (get_punitions_to_apply env mods w)))))"
proof (intro conjI impI allI)
  assume "tv team = None"
  then show "eval_team mods tv team gamestate acc w = (Inr acc, w)"
    by (simp add: eval_team_def)
next
  fix entry
  assume "tv team = Some entry \<and> commander entry = None"
  then show "eval_team mods tv team gamestate acc w =
      eval_squads (squads entry) mods tv team gamestate acc w"
    by (simp add: eval_team_def)
next
  assume "team_view_reply env (trace w @ [Log DEBUG ''Getting team info'']) = Inr tv"
  then have "grows (engine_call_ok tv) w (snd (get_punitions_to_apply env mods w))"
    by (rule get_punitions_to_apply_grows)
  then show "list_all (engine_call_ok tv)
        (drop (length (trace w)) (trace (snd (get_punitions_to_apply env mods w))))"
    by (auto simp: grows_def)
qed

theorem absent_team_or_commander_skipped_witness:
  "eval_team [watchful_moderator] axis_only ''allies'' [] empty_punitions fresh_world =
     (Inr empty_punitions, fresh_world) \<and>
   eval_team [watchful_moderator] axis_only ''axis'' [] empty_punitions fresh_world =
     (Inr \<lparr>warning = [player_of ''7'' ''bob'' ''able'' False None], punish = [], kick = []\<rparr>,
      fresh_world\<lparr>trace :=
        [PunitionsToApplyCall (NoLeaderAutomod, 0) ''able'' ''axis''
           \<lparr>players = [''bob''], extras = []\<rparr>]\<rparr>) \<and>
   trace (snd (get_punitions_to_apply axis_env [watchful_moderator] fresh_world)) =
     [Log DEBUG ''Getting team info'', RconGetTeamView, RconGetGamestate,
      PunitionsToApplyCall (NoLeaderAutomod, 0) ''able'' ''axis''
        \<lparr>players = [''bob''], extras = []\<rparr>] \<and>
   list_all (engine_call_ok axis_only)
     (trace (snd (get_punitions_to_apply axis_env [watchful_moderator] fresh_world)))"
proof -
  have run: "trace (snd (get_punitions_to_apply axis_env [watchful_moderator] fresh_world)) =
     [Log DEBUG ''Getting team info'', RconGetTeamView, RconGetGamestate,
      PunitionsToApplyCall (NoLeaderAutomod, 0) ''able'' ''axis''
        \<lparr>players = [''bob''], extras = []\<rparr>]"
    by (simp add: get_punitions_to_apply_def eval_team_def axis_env_def quiet_env_def
          axis_only_def watchful_moderator_def quiet_moderator_def fresh_world_def
          emit_def Let_def)
  have reply: "team_view_reply axis_env (trace fresh_world @ [Log DEBUG ''Getting team info'']) =
      Inr axis_only"
    by (simp add: axis_env_def quiet_env_def)
  from absent_team_or_commander_skipped
      [of axis_only "''allies''" "[watchful_moderator]" "[]" empty_punitions fresh_world axis_env]
    absent_team_or_commander_skipped
      [of axis_only "''axis''" "[watchful_moderator]" "[]" empty_punitions fresh_world axis_env]
    reply run
  show ?thesis
    by (simp add: axis_only_def watchful_moderator_def quiet_moderator_def fresh_world_def
          empty_punitions_def merge_def emit_def)
qed

end
